theory Spec2Isabelle
  imports Main
begin

section \<open>Python strings\<close>

text \<open>
  A Python \<open>str\<close> is modelled as a \<open>string\<close> whose characters are the code points
  0..255 (ASCII and Latin-1). The operations below are the \<open>str\<close> methods the scanner
  calls, restricted to that range.
\<close>

definition py_isspace :: "char \<Rightarrow> bool" where
  \<comment> \<open>the characters \<open>str.strip()\<close> removes: \<open>\t \n \v \f \r\<close>, \<open>\x1c..\x1f\<close>, space, \<open>\x85\<close>, \<open>\xa0\<close>\<close>
  "py_isspace c =
     (let n = (of_char c :: nat)
      in (9 \<le> n \<and> n \<le> 13) \<or> (28 \<le> n \<and> n \<le> 32) \<or> n = 133 \<or> n = 160)"

definition strip :: "string \<Rightarrow> string" where
  "strip s = rev (dropWhile py_isspace (rev (dropWhile py_isspace s)))"

definition lower_char :: "char \<Rightarrow> char" where
  "lower_char c =
     (let n = (of_char c :: nat)
      in if (65 \<le> n \<and> n \<le> 90) \<or> (192 \<le> n \<and> n \<le> 222 \<and> n \<noteq> 215)
         then char_of (n + 32) else c)"

definition lower :: "string \<Rightarrow> string" where
  "lower s = map lower_char s"

definition startswith :: "string \<Rightarrow> string \<Rightarrow> bool" where
  "startswith s p = (take (length p) s = p)"

fun contains :: "string \<Rightarrow> string \<Rightarrow> bool" where
  \<comment> \<open>\<open>p in s\<close>\<close>
  "contains [] p = (p = [])"
| "contains (c # s) p = (startswith (c # s) p \<or> contains s p)"

definition before :: "char \<Rightarrow> string \<Rightarrow> string" where
  \<comment> \<open>\<open>s.partition(c)[0]\<close>\<close>
  "before c s = takeWhile (\<lambda>x. x \<noteq> c) s"

definition after :: "char \<Rightarrow> string \<Rightarrow> string" where
  \<comment> \<open>\<open>s.partition(c)[2]\<close>\<close>
  "after c s = drop 1 (dropWhile (\<lambda>x. x \<noteq> c) s)"

definition rafter :: "char \<Rightarrow> string \<Rightarrow> string" where
  \<comment> \<open>\<open>s.rpartition(c)[2]\<close>\<close>
  "rafter c s = rev (takeWhile (\<lambda>x. x \<noteq> c) (rev s))"

definition is_ascii_alpha :: "char \<Rightarrow> bool" where
  "is_ascii_alpha c =
     (let n = (of_char c :: nat) in (65 \<le> n \<and> n \<le> 90) \<or> (97 \<le> n \<and> n \<le> 122))"

definition is_ascii_digit :: "char \<Rightarrow> bool" where
  "is_ascii_digit c = (let n = (of_char c :: nat) in 48 \<le> n \<and> n \<le> 57)"

fun int_of_digits :: "int \<Rightarrow> string \<Rightarrow> int" where
  \<comment> \<open>\<open>int(s)\<close> on a string of ASCII digits, most significant first\<close>
  "int_of_digits acc [] = acc"
| "int_of_digits acc (c # cs) = int_of_digits (10 * acc + (of_char c - 48)) cs"

datatype pyerror = ValueError | TypeError | AttributeError

section \<open>urllib.parse.urlparse\<close>

text \<open>
  The scanner reads four attributes of \<open>urlparse(s)\<close>: \<open>scheme\<close>, \<open>netloc\<close>, \<open>hostname\<close>
  and \<open>port\<close>. They are modelled after \<open>urlsplit\<close> and the \<open>_hostinfo\<close>, \<open>hostname\<close> and
  \<open>port\<close> properties of CPython 3.11 (\<open>urlparse\<close> computes scheme and netloc by
  \<open>urlsplit\<close>). The validation of a bracketed host by the \<open>ipaddress\<close> module is the
  parameter \<open>ok_bracketed\<close>: it says which bracketed hosts \<open>_check_bracketed_host\<close> accepts.
  \<open>_checknetloc\<close> raises for no netloc of code points below 256 and is left out.
\<close>

record parse_result =
  scheme :: string
  netloc :: string

definition is_c0_or_space :: "char \<Rightarrow> bool" where
  "is_c0_or_space c = ((of_char c :: nat) \<le> 32)"

definition is_unsafe_byte :: "char \<Rightarrow> bool" where
  \<comment> \<open>\<open>_UNSAFE_URL_BYTES_TO_REMOVE\<close>: tab, carriage return, line feed\<close>
  "is_unsafe_byte c = (let n = (of_char c :: nat) in n = 9 \<or> n = 13 \<or> n = 10)"

definition is_scheme_char :: "char \<Rightarrow> bool" where
  "is_scheme_char c =
     (is_ascii_alpha c \<or> is_ascii_digit c \<or> c = CHR ''+'' \<or> c = CHR ''-'' \<or> c = CHR ''.'')"

definition split_scheme :: "string \<Rightarrow> string \<times> string" where
  \<comment> \<open>the scheme, and the rest of the url after its colon\<close>
  "split_scheme url =
     (let pre = before CHR '':'' url
      in if CHR '':'' \<in> set url \<and> pre \<noteq> [] \<and> is_ascii_alpha (hd url) \<and> list_all is_scheme_char pre
         then (lower pre, after CHR '':'' url)
         else ([], url))"

definition splitnetloc :: "string \<Rightarrow> string" where
  \<comment> \<open>\<open>_splitnetloc(url, 2)[0]\<close>: from index 2 up to the first of \<open>/ ? #\<close>\<close>
  "splitnetloc url =
     takeWhile (\<lambda>c. c \<noteq> CHR ''/'' \<and> c \<noteq> CHR ''?'' \<and> c \<noteq> CHR ''#'') (drop 2 url)"

definition urlparse :: "(string \<Rightarrow> bool) \<Rightarrow> string \<Rightarrow> pyerror + parse_result" where
  "urlparse ok_bracketed url0 =
     (let url = filter (\<lambda>c. \<not> is_unsafe_byte c) (dropWhile is_c0_or_space url0);
          (sch, rest) = split_scheme url
      in if take 2 rest = ''//'' then
           (let nl = splitnetloc rest;
                lb = CHR ''['' \<in> set nl;
                rb = CHR '']'' \<in> set nl
            in if (lb \<and> \<not> rb) \<or> (rb \<and> \<not> lb) then Inl ValueError
               else if lb \<and> rb \<and> \<not> ok_bracketed (before CHR '']'' (after CHR ''['' nl))
               then Inl ValueError
               else Inr \<lparr>scheme = sch, netloc = nl\<rparr>)
         else Inr \<lparr>scheme = sch, netloc = []\<rparr>)"

definition hostinfo :: "parse_result \<Rightarrow> string \<times> string option" where
  "hostinfo p =
     (let hi = rafter CHR ''@'' (netloc p);
          (h, po) =
            (if CHR ''['' \<in> set hi
             then (let bracketed = after CHR ''['' hi
                   in (before CHR '']'' bracketed, after CHR '':'' (after CHR '']'' bracketed)))
             else (before CHR '':'' hi, after CHR '':'' hi))
      in (h, if po = [] then None else Some po))"

definition hostname :: "parse_result \<Rightarrow> string option" where
  "hostname p =
     (let h = fst (hostinfo p)
      in if h = [] then None
         else Some (lower (before CHR ''%'' h)
                    @ (if CHR ''%'' \<in> set h then ''%'' else []) @ after CHR ''%'' h))"

definition port :: "parse_result \<Rightarrow> pyerror + int option" where
  "port p =
     (case snd (hostinfo p) of
        None \<Rightarrow> Inr None
      | Some po \<Rightarrow>
          if list_all is_ascii_digit po
          then (let n = int_of_digits 0 po
                in if n \<le> 65535 then Inr (Some n) else Inl ValueError)
          else Inl ValueError)"

section \<open>Hostname normalisation (core/utils.py, core/scanner.py)\<close>

definition get_normalized_hostname :: "(string \<Rightarrow> bool) \<Rightarrow> string \<Rightarrow> pyerror + string option" where
  \<comment> \<open>the function nested in \<open>_is_external_redirect\<close>; it catches nothing. \<open>port\<close> is read
      in every path that passes the hostname test, so its \<open>ValueError\<close> is raised first.\<close>
  "get_normalized_hostname okb url_str =
     (case urlparse okb url_str of
        Inl e \<Rightarrow> Inl e
      | Inr parsed_url \<Rightarrow>
          (case hostname parsed_url of
             None \<Rightarrow> Inr None
           | Some h \<Rightarrow>
               (let hn = lower h
                in case port parsed_url of
                     Inl e \<Rightarrow> Inl e
                   | Inr po \<Rightarrow>
                       if (scheme parsed_url = ''http'' \<and> po = Some 80)
                          \<or> (scheme parsed_url = ''https'' \<and> po = Some 443)
                       then Inr (Some hn)
                       else if po \<noteq> None \<and> po \<noteq> Some 0
                       then Inr (Some (lower (netloc parsed_url)))
                       else Inr (Some hn))))"

definition get_normalized_hostname_util :: "(string \<Rightarrow> bool) \<Rightarrow> string option \<Rightarrow> string option" where
  \<comment> \<open>the same body after the \<open>not url_str\<close> test, with \<open>ValueError\<close> caught\<close>
  "get_normalized_hostname_util okb url_str =
     (case url_str of
        None \<Rightarrow> None
      | Some s \<Rightarrow>
          if s = [] then None
          else (case get_normalized_hostname okb s of Inl e \<Rightarrow> None | Inr r \<Rightarrow> r))"

definition falsy :: "string option \<Rightarrow> bool" where
  \<comment> \<open>Python's \<open>not x\<close> for a value that is \<open>None\<close> or a \<open>str\<close>\<close>
  "falsy x = (x = None \<or> x = Some [])"

definition is_script_uri :: "string \<Rightarrow> bool" where
  \<comment> \<open>\<open>s.startswith(('javascript:', 'data:', 'vbscript:'))\<close>\<close>
  "is_script_uri s =
     (startswith s ''javascript:'' \<or> startswith s ''data:'' \<or> startswith s ''vbscript:'')"

section \<open>The redirect validator (core/utils.py)\<close>

definition validate_redirect ::
  "(string \<Rightarrow> bool) \<Rightarrow> string \<Rightarrow> string \<Rightarrow> string option \<Rightarrow> string option \<Rightarrow> bool" where
  "validate_redirect okb original_url_str final_redirect_location_str0 payload_value_str callback_url =
     (let final_redirect_location_str = strip final_redirect_location_str0
      in if final_redirect_location_str = [] then False
         else if is_script_uri final_redirect_location_str then True
         else
           (let original_hostname = get_normalized_hostname_util okb (Some original_url_str);
                redirect_hostname = get_normalized_hostname_util okb (Some final_redirect_location_str);
                payload_hostname = get_normalized_hostname_util okb payload_value_str
            in if falsy redirect_hostname then False
               else if \<not> falsy callback_url then
                 (let callback_hostname = get_normalized_hostname_util okb callback_url
                  in \<not> falsy callback_hostname \<and> redirect_hostname = callback_hostname
                     \<and> original_hostname \<noteq> callback_hostname)
               else if falsy payload_hostname then False
               else redirect_hostname = payload_hostname \<and> original_hostname \<noteq> payload_hostname))"

section \<open>The severity classifier (core/scanner.py)\<close>

definition is_external_redirect :: "(string \<Rightarrow> bool) \<Rightarrow> string \<Rightarrow> string \<Rightarrow> string \<Rightarrow> bool" where
  \<comment> \<open>\<open>_is_external_redirect\<close>; an exception of the three parses is caught and gives \<open>False\<close>\<close>
  "is_external_redirect okb original_url_str final_redirect_location_str payload_value_str =
     (case get_normalized_hostname okb original_url_str of
        Inl e \<Rightarrow> False
      | Inr original_hostname \<Rightarrow>
          (case get_normalized_hostname okb final_redirect_location_str of
             Inl e \<Rightarrow> False
           | Inr redirect_hostname \<Rightarrow>
               (case get_normalized_hostname okb payload_value_str of
                  Inl e \<Rightarrow> False
                | Inr payload_hostname \<Rightarrow>
                    if falsy redirect_hostname then False
                    else if \<not> falsy original_hostname \<and> original_hostname = redirect_hostname
                    then False
                    else if \<not> falsy payload_hostname \<and> redirect_hostname = payload_hostname
                    then True
                    else False)))"

definition lower_netloc :: "parse_result \<Rightarrow> string option" where
  \<comment> \<open>\<open>p.netloc.lower() if p.netloc else None\<close>\<close>
  "lower_netloc p = (if netloc p \<noteq> [] then Some (lower (netloc p)) else None)"

definition determine_severity ::
  "(string \<Rightarrow> bool) \<Rightarrow> string \<Rightarrow> string \<Rightarrow> string option \<Rightarrow> pyerror + string" where
  \<comment> \<open>\<open>_determine_severity(original_url_str, payload_value_str, final_redirect_location_str)\<close>;
      the callers pass \<open>result.get('final_location')\<close>, which is \<open>None\<close> for a missing key,
      and \<open>None.startswith\<close> raises\<close>
  "determine_severity okb original_url_str payload_value_str final_opt =
     (case final_opt of
        None \<Rightarrow> Inl AttributeError
      | Some final_redirect_location_str \<Rightarrow>
          if is_script_uri final_redirect_location_str then Inr ''High''
          else if is_external_redirect okb original_url_str final_redirect_location_str payload_value_str
          then Inr ''High''
          else if startswith final_redirect_location_str ''http://''
                  \<or> startswith final_redirect_location_str ''https://''
                  \<or> startswith final_redirect_location_str ''//''
          then
            (case urlparse okb original_url_str of
               Inl e \<Rightarrow> Inr ''Low''
             | Inr parsed_original_url \<Rightarrow>
                 (case urlparse okb final_redirect_location_str of
                    Inl e \<Rightarrow> Inr ''Low''
                  | Inr parsed_redirect_url \<Rightarrow>
                      (let original_netloc = lower_netloc parsed_original_url;
                           redirect_netloc = lower_netloc parsed_redirect_url
                       in if \<not> falsy original_netloc \<and> \<not> falsy redirect_netloc
                          then (if original_netloc \<noteq> redirect_netloc then Inr ''Medium''
                                else Inr ''Low'')
                          else if \<not> falsy redirect_netloc then Inr ''Medium''
                          else Inr ''Low'')))
          else Inr ''Low'')"

definition determine_severity_two_args :: "string \<Rightarrow> string \<Rightarrow> pyerror + string" where
  \<comment> \<open>\<open>self._determine_severity(payload, redirect_url)\<close> at lines 236 and 284: the function
      has three required parameters, so the call raises \<open>TypeError\<close> before its body runs\<close>
  "determine_severity_two_args a b = Inl TypeError"

section \<open>The HTTP client and the scanner's state\<close>

type_synonym headers = "(string \<times> string) list"

record response =
  status_code :: int
  headers :: headers
  resp_text :: string

record request =
  rq_method :: string
  rq_url :: string
  rq_headers :: headers
  rq_cookies :: headers
  rq_data :: headers
  rq_allow_redirects :: bool

text \<open>
  The transport is a parameter: \<open>send rq w\<close> is the response of the \<open>requests\<close> session to
  \<open>rq\<close> in the world \<open>w\<close> (servers and network), or \<open>None\<close> where \<open>requests\<close> raises one of
  its exceptions, together with the world afterwards.
\<close>

type_synonym 'w transport = "request \<Rightarrow> 'w \<Rightarrow> response option \<times> 'w"

record 'w scanner =
  total_requests :: nat
  world :: 'w

definition get_request :: "string \<Rightarrow> request" where
  "get_request u =
     \<lparr>rq_method = ''GET'', rq_url = u, rq_headers = [], rq_cookies = [], rq_data = [],
      rq_allow_redirects = False\<rparr>"

definition make_request :: "'w transport \<Rightarrow> request \<Rightarrow> 'w scanner \<Rightarrow> response option \<times> 'w scanner" where
  \<comment> \<open>counts the request, sends it, and turns the exceptions of \<open>requests\<close> into \<open>None\<close>\<close>
  "make_request send rq s =
     (let (r, w) = send rq (world s)
      in (r, \<lparr>total_requests = total_requests s + 1, world = w\<rparr>))"

definition ok :: "response \<Rightarrow> bool" where
  \<comment> \<open>\<open>bool(response)\<close> is \<open>response.ok\<close>: no status from 400 to 599\<close>
  "ok r = (\<not> (400 \<le> status_code r \<and> status_code r < 600))"

definition truthy :: "response option \<Rightarrow> bool" where
  "truthy r = (case r of None \<Rightarrow> False | Some x \<Rightarrow> ok x)"

definition header_get :: "headers \<Rightarrow> string \<Rightarrow> string option" where
  \<comment> \<open>\<open>headers.get(name)\<close> on the case-insensitive dictionary of \<open>requests\<close>\<close>
  "header_get hs name = map_of (map (\<lambda>(k, v). (lower k, v)) hs) (lower name)"

definition location_or_empty :: "response \<Rightarrow> string" where
  \<comment> \<open>\<open>response.headers.get('Location', '')\<close>\<close>
  "location_or_empty r = (case header_get (headers r) ''Location'' of None \<Rightarrow> [] | Some v \<Rightarrow> v)"

definition is_redirect_status :: "int \<Rightarrow> bool" where
  "is_redirect_status c = (c \<in> set [301, 302, 303, 307, 308])"

definition headers_or_none :: "headers \<Rightarrow> headers option" where
  \<comment> \<open>\<open>dict(h) if h else None\<close>\<close>
  "headers_or_none h = (if h = [] then None else Some h)"

record config =
  fast :: bool
  headers_test :: bool
  callback_url :: "string option"
  follow_redirects :: "int option"
  show_response_headers :: bool

text \<open>
  What the scanner takes from libraries and from modules outside \<open>core/scanner.py\<close> and
  \<open>core/utils.py\<close> is collected in one record of parameters: the bracketed-host check of
  \<open>urlparse\<close>, \<open>urljoin\<close> (which may raise), the rebuilding of the url with one query
  parameter replaced (\<open>parse_qs\<close>, \<open>urlencode\<close>, \<open>urlunparse\<close>), the keys of \<open>parse_qs\<close> of
  the query, the two regular-expression searches of \<open>test_url_parameter\<close>, and the two
  payload lists of the \<open>PayloadManager\<close>.
\<close>

record env =
  ok_bracketed :: "string \<Rightarrow> bool"
  urljoin :: "string \<Rightarrow> string \<Rightarrow> pyerror + string"
  set_query_param :: "string \<Rightarrow> string \<Rightarrow> string \<Rightarrow> string"
  query_keys :: "string \<Rightarrow> string list"
  meta_search :: "string \<Rightarrow> string option"
  js_findall :: "nat \<Rightarrow> string \<Rightarrow> string list"
  get_payloads :: "string list"
  get_header_payloads :: "string list"

record finding =
  vulnerable :: bool
  url :: string
  original_url :: string
  parameter :: "string option"
  header_name :: "string option"
  cookie_name :: "string option"
  payload :: string
  finding_method :: "string option"
  result_status_code :: int
  first_location_header :: "string option"
  final_location :: "string option"
  redirect_location :: "string option"
  redirect_chain :: "string list option"
  response_headers :: "headers option"
  vulnerable_response_headers :: "headers option"
  severity :: "string option"

definition blank_finding :: finding where
  \<comment> \<open>a result dictionary with no optional key set\<close>
  "blank_finding =
     \<lparr>vulnerable = False, url = [], original_url = [], parameter = None, header_name = None,
      cookie_name = None, payload = [], finding_method = None, result_status_code = 0,
      first_location_header = None, final_location = None, redirect_location = None,
      redirect_chain = None, response_headers = None, vulnerable_response_headers = None,
      severity = None\<rparr>"

section \<open>The URL-parameter tester (core/scanner.py)\<close>

definition max_redirects :: "config \<Rightarrow> int" where
  \<comment> \<open>\<open>self.config.get('follow_redirects', 5)\<close>\<close>
  "max_redirects cfg = (case follow_redirects cfg of None \<Rightarrow> 5 | Some n \<Rightarrow> n)"

text \<open>
  The \<open>while redirect_count < max_redirects\<close> loop of lines 146 to 175. Its variables are the
  base url, the location to follow, the chain, the final location and the headers of the
  last redirecting response. A \<open>break\<close>, the exhausted bound and an exception of \<open>urljoin\<close>
  (caught at line 180) all leave the loop with the variables as they are.
\<close>

function follow_chain ::
  "env \<Rightarrow> 'w transport \<Rightarrow> int \<Rightarrow> int \<Rightarrow> string \<Rightarrow> string \<Rightarrow> string list \<Rightarrow> string \<Rightarrow> headers
   \<Rightarrow> 'w scanner \<Rightarrow> (string list \<times> string \<times> headers) \<times> 'w scanner" where
  "follow_chain E send maxr redirect_count base current chain final hdrs s =
     (if redirect_count < maxr then
        (case urljoin E base current of
           Inl e \<Rightarrow> ((chain, final, hdrs), s)
         | Inr absolute_url_to_follow \<Rightarrow>
             (let (follow_response, s1) = make_request send (get_request absolute_url_to_follow) s
              in case follow_response of
                   None \<Rightarrow> ((chain, final, hdrs), s1)
                 | Some r \<Rightarrow>
                     if \<not> ok r then ((chain, final, hdrs), s1)
                     else if \<not> is_redirect_status (status_code r)
                     then ((chain, absolute_url_to_follow, hdrs), s1)
                     else if location_or_empty r = []
                     then ((chain, absolute_url_to_follow, hdrs), s1)
                     else follow_chain E send maxr (redirect_count + 1) absolute_url_to_follow
                            (location_or_empty r) (chain @ [location_or_empty r])
                            (location_or_empty r) (headers r) s1))
      else ((chain, final, hdrs), s))"
  by pat_completeness auto
termination
  by (relation "measure (\<lambda>(E, send, maxr, redirect_count, rest). nat (maxr - redirect_count))") auto

definition js_patterns :: "nat list" where
  \<comment> \<open>the indices of the eleven patterns of \<open>js_patterns\<close>, in the order of the list\<close>
  "js_patterns = [0, 1, 2, 3, 4, 5, 6, 7, 8, 9, 10]"

definition origin_of :: "parse_result \<Rightarrow> string \<Rightarrow> string" where
  \<comment> \<open>\<open>f"{parsed.scheme}://{parsed.netloc}{path}"\<close>\<close>
  "origin_of parsed path = scheme parsed @ ''://'' @ netloc parsed @ path"

datatype 'a flow = Returned 'a | Raised pyerror | Fell

fun js_scan ::
  "env \<Rightarrow> config \<Rightarrow> 'w transport \<Rightarrow> parse_result \<Rightarrow> finding \<Rightarrow> string list \<Rightarrow> 'w scanner
   \<Rightarrow> finding flow \<times> 'w scanner" where
  \<comment> \<open>the two nested \<open>for\<close> loops of lines 258 to 285 over all matches of all patterns; the
      first argument of the validator is the payload, its third the configured callback\<close>
  "js_scan E cfg send parsed base [] s = (Fell, s)"
| "js_scan E cfg send parsed base (match # matches) s =
     (if validate_redirect (ok_bracketed E) (payload base) match (callback_url cfg) None then
        (if startswith match ''/'' then
           (let (follow_response, s1) =
                  make_request send (get_request (origin_of parsed match)) s
            in if \<not> truthy follow_response \<or> status_code (the follow_response) \<ge> 400
               then js_scan E cfg send parsed base matches s1
               else (case determine_severity_two_args (payload base) match of
                       Inl e \<Rightarrow> (Raised e, s1)
                     | Inr sev \<Rightarrow>
                         (Returned (base\<lparr>vulnerable := True, finding_method := Some ''JavaScript Redirect'',
                                         redirect_location := Some match, severity := Some sev\<rparr>), s1)))
         else (case determine_severity_two_args (payload base) match of
                 Inl e \<Rightarrow> (Raised e, s)
               | Inr sev \<Rightarrow>
                   (Returned (base\<lparr>vulnerable := True, finding_method := Some ''JavaScript Redirect'',
                                   redirect_location := Some match, severity := Some sev\<rparr>), s)))
      else js_scan E cfg send parsed base matches s)"

definition http_equiv_refresh :: string where
  \<comment> \<open>the text \<open>http-equiv="refresh"\<close>, with its two double quotes\<close>
  "http_equiv_refresh = ''http-equiv='' @ [CHR 0x22] @ ''refresh'' @ [CHR 0x22]"

definition meta_check ::
  "env \<Rightarrow> config \<Rightarrow> 'w transport \<Rightarrow> parse_result \<Rightarrow> finding \<Rightarrow> string \<Rightarrow> 'w scanner
   \<Rightarrow> finding flow \<times> 'w scanner" where
  \<comment> \<open>lines 205 to 240; an exception raised inside the \<open>try\<close> of line 215 is caught there and
      the function goes on to the JavaScript patterns\<close>
  "meta_check E cfg send parsed base content s =
     (if contains content http_equiv_refresh \<or> contains content (''meta '' @ http_equiv_refresh)
      then
        (case meta_search E content of
           None \<Rightarrow> (Fell, s)
         | Some redirect_url \<Rightarrow>
             (let full_redirect_url =
                    (if startswith redirect_url ''/'' then origin_of parsed redirect_url
                     else redirect_url);
                  (follow_response, s1) = make_request send (get_request full_redirect_url) s
              in if truthy follow_response \<and> status_code (the follow_response) = 200
                 then
                   (if validate_redirect (ok_bracketed E) (payload base) redirect_url (callback_url cfg) None
                    then
                      (case determine_severity_two_args (payload base) redirect_url of
                         Inl e \<Rightarrow> (Fell, s1)
                       | Inr sev \<Rightarrow>
                           (Returned (base\<lparr>vulnerable := True, finding_method := Some ''Meta Refresh'',
                                           redirect_location := Some redirect_url,
                                           redirect_chain := Some [redirect_url],
                                           severity := Some sev\<rparr>), s1))
                    else (Fell, s1))
                 else (Fell, s1)))
      else (Fell, s))"

definition test_url_parameter ::
  "env \<Rightarrow> config \<Rightarrow> 'w transport \<Rightarrow> string \<Rightarrow> string \<Rightarrow> string \<Rightarrow> 'w scanner
   \<Rightarrow> finding option \<times> 'w scanner" where
  \<comment> \<open>\<open>None\<close> is the function's \<open>return None\<close>: no usable response, or an exception caught
      at line 296\<close>
  "test_url_parameter E cfg send url0 param payload0 s =
     (case urlparse (ok_bracketed E) url0 of
        Inl e \<Rightarrow> (None, s)
      | Inr parsed \<Rightarrow>
          (let test_url = set_query_param E url0 param payload0;
               (response, s1) = make_request send (get_request test_url) s
           in if \<not> truthy response then (None, s1)
              else
                (let r = the response;
                     base = blank_finding\<lparr>url := test_url, original_url := url0,
                              parameter := Some param, payload := payload0,
                              result_status_code := status_code r\<rparr>;
                     first_location_header = location_or_empty r
                 in if is_redirect_status (status_code r) then
                      (if first_location_header \<noteq> [] then
                         (let ((chain, final, hdrs), s2) =
                                follow_chain E send (max_redirects cfg) 0 test_url
                                  first_location_header [first_location_header]
                                  first_location_header (headers r) s1
                          in if final \<noteq> [] \<and> is_external_redirect (ok_bracketed E) url0 final payload0
                             then (Some (base\<lparr>vulnerable := True, finding_method := Some ''URL Parameter'',
                                            first_location_header := Some first_location_header,
                                            final_location := Some final,
                                            redirect_chain := Some chain,
                                            response_headers := headers_or_none hdrs,
                                            vulnerable_response_headers :=
                                              (if show_response_headers cfg then Some hdrs else None)\<rparr>), s2)
                             else (Some base, s2))
                       else (Some base, s1))
                    else if status_code r = 200 then
                      (let content = lower (resp_text r)
                       in case meta_check E cfg send parsed base content s1 of
                            (Returned f, s2) \<Rightarrow> (Some f, s2)
                          | (Raised e, s2) \<Rightarrow> (None, s2)
                          | (Fell, s2) \<Rightarrow>
                              (case js_scan E cfg send parsed base
                                      (concat (map (\<lambda>i. js_findall E i content) js_patterns)) s2 of
                                 (Returned f, s3) \<Rightarrow> (Some f, s3)
                               | (Raised e, s3) \<Rightarrow> (None, s3)
                               | (Fell, s3) \<Rightarrow> (Some base, s3)))
                    else (Some base, s1))))"

section \<open>The header-injection tester\<close>

definition test_header_injection ::
  "env \<Rightarrow> config \<Rightarrow> 'w transport \<Rightarrow> string \<Rightarrow> string \<Rightarrow> string \<Rightarrow> 'w scanner
   \<Rightarrow> finding option \<times> 'w scanner" where
  "test_header_injection E cfg send url0 header_name0 payload0 s =
     (let (response, s1) =
            make_request send ((get_request url0)\<lparr>rq_headers := [(header_name0, payload0)]\<rparr>) s
      in if \<not> truthy response then (None, s1)
         else
           (let r = the response;
                base = blank_finding\<lparr>original_url := url0, url := url0,
                         header_name := Some header_name0, payload := payload0,
                         result_status_code := status_code r,
                         response_headers := headers_or_none (headers r)\<rparr>;
                location = location_or_empty r
            in if is_redirect_status (status_code r) \<and> location \<noteq> []
                  \<and> validate_redirect (ok_bracketed E) url0 location (Some payload0) (callback_url cfg)
               then (Some (base\<lparr>vulnerable := True, finding_method := Some ''Header Injection'',
                              final_location := Some location\<rparr>), s1)
               else (Some (base\<lparr>final_location := header_get (headers r) ''Location''\<rparr>), s1)))"

section \<open>The form and cookie testers\<close>

definition follow_once ::
  "env \<Rightarrow> 'w transport \<Rightarrow> string \<Rightarrow> string \<Rightarrow> 'w scanner \<Rightarrow> (string list \<times> string) \<times> 'w scanner" where
  \<comment> \<open>the single manual hop both testers make (lines 400 to 421 and 468 to 489): the chain and
      the final location after following \<open>location_header\<close> once\<close>
  "follow_once E send url0 location_header s =
     (case urljoin E url0 location_header of
        Inl e \<Rightarrow> (([location_header], location_header), s)
      | Inr resolved_follow_url \<Rightarrow>
          (let (follow_response, s1) = make_request send (get_request resolved_follow_url) s
           in if truthy follow_response \<and> is_redirect_status (status_code (the follow_response))
                 \<and> location_or_empty (the follow_response) \<noteq> []
              then (([location_header, location_or_empty (the follow_response)],
                     location_or_empty (the follow_response)), s1)
              else (([location_header], location_header), s1)))"

definition self_headers :: "pyerror + headers" where
  \<comment> \<open>\<open>self.headers\<close>, read at line 386: the class assigns no attribute \<open>headers\<close> (the
      session has one), so reading it raises \<open>AttributeError\<close>\<close>
  "self_headers = Inl AttributeError"

definition form_params :: "string list" where
  "form_params = [''redirect_to'', ''next'', ''return'', ''success_url'', ''failure_url'']"

definition test_payloads :: "config \<Rightarrow> string list" where
  \<comment> \<open>the payload list of the form tester and of the cookie tester\<close>
  "test_payloads cfg =
     (if fast cfg then [''http://evil.com'', ''//evil.com'']
      else [''http://evil.com'', ''//evil.com'', ''javascript:alert(1)''])"

fun form_loop ::
  "env \<Rightarrow> config \<Rightarrow> 'w transport \<Rightarrow> string \<Rightarrow> (string \<times> string) list \<Rightarrow> finding list \<Rightarrow> 'w scanner
   \<Rightarrow> (pyerror + finding list) \<times> 'w scanner" where
  \<comment> \<open>the two nested \<open>for\<close> loops of lines 374 to 439 over every (param, payload); the
      \<open>AttributeError\<close> of \<open>self.headers\<close> is none of the exceptions caught at lines 388 and 392\<close>
  "form_loop E cfg send url0 [] results s = (Inr results, s)"
| "form_loop E cfg send url0 ((param, payload0) # rest) results s =
     (let s0 = s\<lparr>total_requests := total_requests s + 1\<rparr>
      in case self_headers of
           Inl e \<Rightarrow> (Inl e, s0)
         | Inr hs \<Rightarrow>
             (let (post_response, w) =
                    send \<lparr>rq_method = ''POST'', rq_url = url0, rq_headers = hs, rq_cookies = [],
                          rq_data = [(param, payload0)], rq_allow_redirects = False\<rparr> (world s0);
                  s1 = s0\<lparr>world := w\<rparr>
              in if truthy post_response \<and> is_redirect_status (status_code (the post_response))
                    \<and> location_or_empty (the post_response) \<noteq> []
                 then
                   (let ((chain, final), s2) =
                          follow_once E send url0 (location_or_empty (the post_response)) s1
                    in if validate_redirect (ok_bracketed E) url0 final (Some payload0) (callback_url cfg)
                       then
                         (let results' = results @
                                [blank_finding\<lparr>vulnerable := True, original_url := url0, url := url0,
                                   parameter := Some param, payload := payload0,
                                   finding_method := Some ''Form POST Redirect'',
                                   result_status_code := status_code (the post_response),
                                   final_location := Some final, redirect_chain := Some chain,
                                   response_headers := headers_or_none (headers (the post_response))\<rparr>]
                          in if fast cfg then (Inr results', s2)
                             else form_loop E cfg send url0 rest results' s2)
                       else form_loop E cfg send url0 rest results s2)
                 else form_loop E cfg send url0 rest results s1))"

definition test_form_redirects ::
  "env \<Rightarrow> config \<Rightarrow> 'w transport \<Rightarrow> string \<Rightarrow> 'w scanner \<Rightarrow> (pyerror + finding list) \<times> 'w scanner" where
  "test_form_redirects E cfg send url0 s =
     (let (response, s1) = make_request send ((get_request url0)\<lparr>rq_allow_redirects := True\<rparr>) s
      in if \<not> truthy response \<or> status_code (the response) \<noteq> 200 then (Inr [], s1)
         else if \<not> contains (lower (resp_text (the response))) ''<form'' then (Inr [], s1)
         else form_loop E cfg send url0 (List.product form_params (test_payloads cfg)) [] s1)"

definition cookie_names :: "string list" where
  "cookie_names =
     [''redirect_url'', ''redirect_uri'', ''return_url'', ''return_to'', ''next_url'',
      ''next'', ''url_redirect'', ''redirect'', ''return'', ''target'', ''goto'', ''location_cookie'',
      ''dest'', ''destination'', ''redir_url'', ''callback_url'', ''redirect_after_login'']"

fun cookie_loop ::
  "env \<Rightarrow> config \<Rightarrow> 'w transport \<Rightarrow> string \<Rightarrow> (string \<times> string) list \<Rightarrow> finding list \<Rightarrow> 'w scanner
   \<Rightarrow> finding list \<times> 'w scanner" where
  \<comment> \<open>the two nested \<open>for\<close> loops of lines 455 to 517 over every (cookie name, payload)\<close>
  "cookie_loop E cfg send url0 [] results s = (results, s)"
| "cookie_loop E cfg send url0 ((cookie_name0, payload0) # rest) results s =
     (let (response, s1) =
            make_request send ((get_request url0)\<lparr>rq_cookies := [(cookie_name0, payload0)]\<rparr>) s
      in if \<not> truthy response then cookie_loop E cfg send url0 rest results s1
         else if is_redirect_status (status_code (the response))
                 \<and> location_or_empty (the response) \<noteq> []
         then
           (let ((chain, final), s2) = follow_once E send url0 (location_or_empty (the response)) s1
            in if validate_redirect (ok_bracketed E) url0 final (Some payload0) (callback_url cfg)
               then
                 (let results' = results @
                        [blank_finding\<lparr>vulnerable := True, original_url := url0, url := url0,
                           cookie_name := Some cookie_name0, payload := payload0,
                           finding_method := Some ''Cookie Redirect'',
                           result_status_code := status_code (the response),
                           final_location := Some final, redirect_chain := Some chain,
                           response_headers := headers_or_none (headers (the response))\<rparr>]
                  in if fast cfg then (results', s2)
                     else cookie_loop E cfg send url0 rest results' s2)
               else cookie_loop E cfg send url0 rest results s2)
         else cookie_loop E cfg send url0 rest results s1)"

definition test_cookie_redirects ::
  "env \<Rightarrow> config \<Rightarrow> 'w transport \<Rightarrow> string \<Rightarrow> 'w scanner \<Rightarrow> finding list \<times> 'w scanner" where
  "test_cookie_redirects E cfg send url0 s =
     cookie_loop E cfg send url0 (List.product cookie_names (test_payloads cfg)) [] s"

section \<open>The scan of one target (core/scanner.py, core/utils.py)\<close>

definition common_redirect_params :: "string list" where
  "common_redirect_params =
     [''url'', ''redirect'', ''return'', ''callback'', ''next'', ''target'', ''goto'', ''link'',
      ''forward'', ''continue'', ''destination'', ''redir'', ''location'', ''site'',
      ''returnUrl'', ''returnURL'', ''redirect_uri'', ''redirectUrl'', ''redirectURL'',
      ''returnTo'', ''return_to'', ''backUrl'', ''back_url'', ''successUrl'', ''success_url'']"

definition extract_redirect_params :: "env \<Rightarrow> string \<Rightarrow> string list" where
  "extract_redirect_params E url0 =
     (case urlparse (ok_bracketed E) url0 of
        Inl e \<Rightarrow> take 10 common_redirect_params
      | Inr parsed \<Rightarrow>
          (let potential_params =
                 filter (\<lambda>param. lower param \<in> set (map lower common_redirect_params))
                   (query_keys E url0)
           in if potential_params = [] then take 10 common_redirect_params else potential_params))"

definition fallback_params :: "string list" where
  "fallback_params =
     [''url'', ''redirect'', ''return'', ''callback'', ''next'', ''target'', ''goto'', ''link'',
      ''destination'', ''forward'', ''continue'', ''redirect_url'', ''redirect_uri'',
      ''returnUrl'', ''returnURL'', ''return_url'', ''backUrl'', ''back_url'', ''successUrl'',
      ''success_url'', ''failureUrl'', ''failure_url'', ''redirectTo'', ''redirect_to'',
      ''site'', ''domain'', ''host'', ''location'', ''path'', ''page'', ''ref'', ''referer'',
      ''source'', ''from'', ''origin'', ''redir'', ''exit'', ''out'', ''away'', ''external'']"

definition header_names :: "string list" where
  "header_names =
     [''Host'', ''X-Forwarded-Host'', ''X-Forwarded-For'', ''X-Real-IP'',
      ''X-Forwarded-Proto'', ''X-Forwarded-Server'', ''X-Host'', ''X-HTTP-Host-Override'',
      ''Referer'', ''Origin'', ''X-Original-URL'', ''X-Rewrite-URL'', ''CF-Connecting-IP'']"

definition with_severity :: "(string \<Rightarrow> bool) \<Rightarrow> finding \<Rightarrow> finding" where
  \<comment> \<open>the \<open>try\<close> around \<open>_determine_severity\<close>: any exception gives the sentinel\<close>
  "with_severity okb r =
     r\<lparr>severity :=
         Some (case determine_severity okb (original_url r) (payload r) (final_location r) of
                 Inl e \<Rightarrow> ''ErrorDeterminingSeverity''
               | Inr sev \<Rightarrow> sev)\<rparr>"

definition processed :: "(string \<Rightarrow> bool) \<Rightarrow> finding \<Rightarrow> finding" where
  \<comment> \<open>what the loops over the form and cookie results do with one item\<close>
  "processed okb res_item = (if vulnerable res_item then with_severity okb res_item else res_item)"

datatype loop_exit = Return "finding list" | Continue "finding list" bool

text \<open>
  Lines 744 to 775 and lines 791 to 822 are the same pair of loops, around
  \<open>test_url_parameter\<close> and around \<open>test_header_injection\<close>: \<open>tester name payload\<close> stands for
  either. \<open>Return\<close> is the \<open>return results\<close> of fast mode; \<open>Continue\<close> carries \<open>results\<close> and
  \<open>url_vulnerable_flag\<close> to the code after the loops.
\<close>

fun payload_loop ::
  "config \<Rightarrow> (string \<Rightarrow> bool) \<Rightarrow> (string \<Rightarrow> string \<Rightarrow> 'w scanner \<Rightarrow> finding option \<times> 'w scanner)
   \<Rightarrow> string \<Rightarrow> string list \<Rightarrow> finding list \<Rightarrow> bool \<Rightarrow> 'w scanner \<Rightarrow> loop_exit \<times> 'w scanner" where
  "payload_loop cfg okb tester name [] results flag s = (Continue results flag, s)"
| "payload_loop cfg okb tester name (payload_item # rest) results flag s =
     (let (result, s1) = tester name payload_item s
      in case result of
           None \<Rightarrow> payload_loop cfg okb tester name rest results flag s1
         | Some r \<Rightarrow>
             if vulnerable r then
               (let results' = results @ [with_severity okb r]
                in if fast cfg then (Return results', s1)
                   else payload_loop cfg okb tester name rest results' True s1)
             else payload_loop cfg okb tester name rest (results @ [r]) flag s1)"

fun name_loop ::
  "config \<Rightarrow> (string \<Rightarrow> bool) \<Rightarrow> (string \<Rightarrow> string \<Rightarrow> 'w scanner \<Rightarrow> finding option \<times> 'w scanner)
   \<Rightarrow> string list \<Rightarrow> string list \<Rightarrow> finding list \<Rightarrow> bool \<Rightarrow> 'w scanner \<Rightarrow> loop_exit \<times> 'w scanner" where
  "name_loop cfg okb tester [] payloads results flag s = (Continue results flag, s)"
| "name_loop cfg okb tester (name # names) payloads results flag s =
     (if flag \<and> fast cfg then (Continue results flag, s)
      else (case payload_loop cfg okb tester name payloads results flag s of
              (Return rs, s1) \<Rightarrow> (Return rs, s1)
            | (Continue rs fl, s1) \<Rightarrow> name_loop cfg okb tester names payloads rs fl s1))"

definition effective_payloads :: "config \<Rightarrow> string list \<Rightarrow> string list" where
  "effective_payloads cfg all_payloads = (if fast cfg then take 3 all_payloads else all_payloads)"

definition redirect_params_of :: "env \<Rightarrow> string \<Rightarrow> string list" where
  \<comment> \<open>lines 719 to 730\<close>
  "redirect_params_of E url0 =
     (if extract_redirect_params E url0 = [] then fallback_params
      else extract_redirect_params E url0)"

definition header_phase ::
  "env \<Rightarrow> config \<Rightarrow> 'w transport \<Rightarrow> string \<Rightarrow> finding list \<Rightarrow> bool \<Rightarrow> 'w scanner
   \<Rightarrow> loop_exit \<times> 'w scanner" where
  \<comment> \<open>lines 778 to 822\<close>
  "header_phase E cfg send url0 results flag s =
     (if headers_test cfg
      then name_loop cfg (ok_bracketed E) (test_header_injection E cfg send url0) header_names
             (effective_payloads cfg (get_header_payloads E)) results flag s
      else (Continue results flag, s))"

definition scan_single_url ::
  "env \<Rightarrow> config \<Rightarrow> 'w transport \<Rightarrow> string \<Rightarrow> 'w scanner \<Rightarrow> (pyerror + finding list) \<times> 'w scanner" where
  \<comment> \<open>\<open>Inl\<close> is an exception that leaves \<open>scan_single_url\<close>: the list built so far is lost\<close>
  "scan_single_url E cfg send url0 s =
     (case name_loop cfg (ok_bracketed E) (test_url_parameter E cfg send url0)
             (redirect_params_of E url0) (effective_payloads cfg (get_payloads E)) [] False s of
        (Return rs, s1) \<Rightarrow> (Inr rs, s1)
      | (Continue rs1 flag1, s1) \<Rightarrow>
          (case header_phase E cfg send url0 rs1 flag1 s1 of
             (Return rs, s2) \<Rightarrow> (Inr rs, s2)
           | (Continue rs2 flag2, s2) \<Rightarrow>
               (case test_form_redirects E cfg send url0 s2 of
                  (Inl e, s3) \<Rightarrow> (Inl e, s3)
                | (Inr form_results_list, s3) \<Rightarrow>
                    (let rs3 = rs2 @ map (processed (ok_bracketed E)) form_results_list
                     in if fast cfg \<and> list_ex vulnerable form_results_list then (Inr rs3, s3)
                        else
                          (let (cookie_results_list, s4) = test_cookie_redirects E cfg send url0 s3
                           in (Inr (rs3 @ map (processed (ok_bracketed E)) cookie_results_list), s4))))))"

section \<open>Reference notions for the properties\<close>

text \<open>
  A synthetic chain: \<open>chain_redirects E send n base current s\<close> says that the next \<open>n\<close>
  requests the loop of \<open>test_url_parameter\<close> makes, starting with \<open>current\<close> resolved
  against \<open>base\<close> in the state \<open>s\<close>, are each answered by a redirect with a Location
  header. Nothing is said of any later request.
\<close>

fun chain_redirects :: "env \<Rightarrow> 'w transport \<Rightarrow> nat \<Rightarrow> string \<Rightarrow> string \<Rightarrow> 'w scanner \<Rightarrow> bool" where
  "chain_redirects E send 0 base current s = True"
| "chain_redirects E send (Suc n) base current s =
     (case urljoin E base current of
        Inl e \<Rightarrow> False
      | Inr u \<Rightarrow>
          (case make_request send (get_request u) s of
             (None, s1) \<Rightarrow> False
           | (Some r, s1) \<Rightarrow>
               ok r \<and> is_redirect_status (status_code r) \<and> location_or_empty r \<noteq> []
               \<and> chain_redirects E send n u (location_or_empty r) s1))"

text \<open>
  The results collected so far: \<open>collect okb tester attempts s\<close> runs the tester on every
  (name, payload) of the list in order, from the state \<open>s\<close>, and returns every result a
  tester returned, a vulnerable one with its severity, and the state afterwards. It is the
  accumulation without any early exit, against which the loops of \<open>scan_single_url\<close> are
  compared.
\<close>

fun collect ::
  "(string \<Rightarrow> bool) \<Rightarrow> (string \<Rightarrow> string \<Rightarrow> 'w scanner \<Rightarrow> finding option \<times> 'w scanner)
   \<Rightarrow> (string \<times> string) list \<Rightarrow> 'w scanner \<Rightarrow> finding list \<times> 'w scanner" where
  "collect okb tester [] s = ([], s)"
| "collect okb tester ((name, payload_item) # rest) s =
     (let (result, s1) = tester name payload_item s;
          (rs, s2) = collect okb tester rest s1
      in ((case result of
             None \<Rightarrow> []
           | Some r \<Rightarrow> [if vulnerable r then with_severity okb r else r]) @ rs, s2))"

definition param_attempts :: "env \<Rightarrow> config \<Rightarrow> string \<Rightarrow> (string \<times> string) list" where
  \<comment> \<open>the (parameter, payload) pairs in the order the loops of lines 744 to 748 visit them\<close>
  "param_attempts E cfg url0 =
     List.product (redirect_params_of E url0) (effective_payloads cfg (get_payloads E))"

definition header_attempts :: "env \<Rightarrow> config \<Rightarrow> (string \<times> string) list" where
  \<comment> \<open>the (header, payload) pairs in the order the loops of lines 791 to 795 visit them\<close>
  "header_attempts E cfg =
     List.product header_names (effective_payloads cfg (get_header_payloads E))"

definition collect_phases ::
  "env \<Rightarrow> config \<Rightarrow> 'w transport \<Rightarrow> string \<Rightarrow> 'w scanner \<Rightarrow> finding list \<times> 'w scanner" where
  \<comment> \<open>everything the URL-parameter tester and, when enabled, the header tester return\<close>
  "collect_phases E cfg send url0 s =
     (let (a, s1) = collect (ok_bracketed E) (test_url_parameter E cfg send url0)
                      (param_attempts E cfg url0) s;
          (b, s2) = (if headers_test cfg
                     then collect (ok_bracketed E) (test_header_injection E cfg send url0)
                            (header_attempts E cfg) s1
                     else ([], s1))
      in (a @ b, s2))"

section \<open>Evaluation at concrete inputs\<close>

text \<open>
  The parameters are instantiated for the concrete runs of this development: urls without
  brackets, absolute locations (which \<open>urljoin\<close> returns as they are), targets whose query
  is one field \<open>name=value\<close> (so that \<open>urlencode\<close> yields the single field
  \<open>param=quote_plus(payload)\<close>), and bodies in which none of the JavaScript patterns occurs.
  On these inputs the instance computes what the libraries compute.
\<close>

definition no_bracketed :: "string \<Rightarrow> bool" where
  "no_bracketed h = False"

definition hex_digit :: "nat \<Rightarrow> char" where
  "hex_digit n = ''0123456789ABCDEF'' ! n"

definition quote_plus_char :: "char \<Rightarrow> string" where
  "quote_plus_char c =
     (if is_ascii_alpha c \<or> is_ascii_digit c \<or> c \<in> set ''_.-~'' then [c]
      else if c = CHR '' '' then ''+''
      else [CHR ''%'', hex_digit (of_char c div 16), hex_digit (of_char c mod 16)])"

definition quote_plus :: "string \<Rightarrow> string" where
  "quote_plus s = concat (map quote_plus_char s)"

definition meta_match_here :: "string \<Rightarrow> string option" where
  \<comment> \<open>a match of \<open>content=["']?\d+;\s*url=([^"'>\s]+)\<close> at the start of the string\<close>
  "meta_match_here s =
     (if startswith s ''content='' then
        (let r = drop 8 s;
             r1 = (if r \<noteq> [] \<and> (hd r = CHR 0x22 \<or> hd r = CHR 0x27) then tl r else r);
             r2 = dropWhile is_ascii_digit r1;
             r3 = dropWhile py_isspace (drop 1 r2);
             cap = takeWhile (\<lambda>c. c \<noteq> CHR 0x22 \<and> c \<noteq> CHR 0x27 \<and> c \<noteq> CHR ''>'' \<and> \<not> py_isspace c)
                     (drop 4 r3)
         in if takeWhile is_ascii_digit r1 \<noteq> [] \<and> startswith r2 '';'' \<and> startswith r3 ''url=''
               \<and> cap \<noteq> []
            then Some cap else None)
      else None)"

fun meta_refresh_search :: "string \<Rightarrow> string option" where
  \<comment> \<open>\<open>re.search\<close> of that pattern: group 1 of the leftmost match\<close>
  "meta_refresh_search [] = None"
| "meta_refresh_search (c # s) =
     (case meta_match_here (c # s) of Some m \<Rightarrow> Some m | None \<Rightarrow> meta_refresh_search s)"

definition demo_env :: env where
  "demo_env =
     \<lparr>ok_bracketed = no_bracketed,
      urljoin = (\<lambda>base location. Inr location),
      set_query_param = (\<lambda>u param value. before CHR ''?'' u @ ''?'' @ param @ ''='' @ quote_plus value),
      query_keys = (\<lambda>u. if CHR ''?'' \<in> set u then [before CHR ''='' (after CHR ''?'' u)] else []),
      meta_search = meta_refresh_search,
      js_findall = (\<lambda>i content. []),
      get_payloads = [''http://evil.com''],
      get_header_payloads = [''http://evil.com'']\<rparr>"

definition demo_config :: config where
  "demo_config =
     \<lparr>fast = False, headers_test = False, callback_url = None, follow_redirects = Some 2,
      show_response_headers = False\<rparr>"

definition fast_config :: config where
  "fast_config = demo_config\<lparr>fast := True\<rparr>"

definition start :: "unit scanner" where
  "start = \<lparr>total_requests = 0, world = ()\<rparr>"

definition answer :: "int \<Rightarrow> headers \<Rightarrow> string \<Rightarrow> response option \<times> unit" where
  "answer code hs body = (Some \<lparr>status_code = code, headers = hs, resp_text = body\<rparr>, ())"

definition exact_server :: "unit transport" where
  \<comment> \<open>a chain of exactly three redirects: the target, then two urls of the attacker's host;
      the third url of that host answers 200\<close>
  "exact_server rq w =
     (if startswith (rq_url rq) ''http://site.test/''
      then answer 302 [(''Location'', ''http://evil.com/a'')] []
      else if rq_url rq = ''http://evil.com/a'' \<or> rq_url rq = ''http://evil.com/aa''
      then answer 302 [(''Location'', rq_url rq @ ''a'')] []
      else answer 200 [] [])"

definition script_server :: "unit transport" where
  \<comment> \<open>the target redirects to a script URI, which \<open>requests\<close> refuses to fetch\<close>
  "script_server rq w =
     (if startswith (rq_url rq) ''http://site.test/''
      then answer 302 [(''Location'', ''javascript:alert(1)'')] []
      else (None, ()))"

definition meta_body :: string where
  "meta_body = ''<meta '' @ http_equiv_refresh @ '' content='' @ [CHR 0x22]
                 @ ''0;url=http://cb.example/landing'' @ [CHR 0x22] @ ''>''"

definition meta_server :: "unit transport" where
  \<comment> \<open>the target answers 200 with a meta refresh to the callback host, which answers 200\<close>
  "meta_server rq w =
     (if startswith (rq_url rq) ''http://site.test/'' then answer 200 [] meta_body
      else answer 200 [] [])"

definition open_server :: "unit transport" where
  \<comment> \<open>the target redirects every request to the attacker's host, which answers 200\<close>
  "open_server rq w =
     (if startswith (rq_url rq) ''http://site.test/''
      then answer 302 [(''Location'', ''http://evil.com/'')] []
      else answer 200 [] [])"

definition header_server :: "unit transport" where
  \<comment> \<open>the target redirects to the attacker's host only a request that carries an injected
      header, and answers every other request 200\<close>
  "header_server rq w =
     (if rq_headers rq \<noteq> [] then answer 302 [(''Location'', ''http://evil.com/'')] []
      else answer 200 [] [])"

definition fast_header_config :: config where
  "fast_header_config = fast_config\<lparr>headers_test := True\<rparr>"

definition form_server :: "unit transport" where
  \<comment> \<open>every request is answered 200 with a page that holds a form\<close>
  "form_server rq w = answer 200 [] ''<form action=/login method=post></form>''"

definition formfeed_script_server :: "unit transport" where
  \<comment> \<open>a Location header whose value is a form feed followed by a script URI\<close>
  "formfeed_script_server rq w = answer 302 [(''Location'', CHR 0x0C # ''javascript:alert(1)'')] []"

definition target :: string where
  "target = ''http://site.test/login?next=/home''"

section \<open>Facts about the parser and the normaliser\<close>

lemma lower_char_slash: "lower_char c = CHR ''/'' \<Longrightarrow> c = CHR ''/''"
proof -
  assume a: "lower_char c = CHR ''/''"
  show ?thesis
  proof (cases "(65 \<le> (of_char c :: nat) \<and> (of_char c :: nat) \<le> 90) \<or> (192 \<le> (of_char c :: nat) \<and> (of_char c :: nat) \<le> 222 \<and> (of_char c :: nat) \<noteq> 215)")
    case True
    then have "lower_char c = char_of ((of_char c :: nat) + 32)" by (simp add: lower_char_def Let_def)
    with a have "(of_char (char_of ((of_char c :: nat) + 32)) :: nat) = of_char (CHR ''/'')" by simp
    then have "((of_char c :: nat) + 32) mod 256 = 47" by simp
    moreover from True have "(of_char c :: nat) + 32 < 256" by linarith
    ultimately have "(of_char c :: nat) + 32 = 47" by simp
    with True have False by linarith
    then show ?thesis ..
  next
    case False
    then have "lower_char c = c" by (auto simp add: lower_char_def Let_def)
    with a show ?thesis by simp
  qed
qed

lemma lower_no_slash: "CHR ''/'' \<notin> set s \<Longrightarrow> CHR ''/'' \<notin> set (lower s)"
proof
  assume a: "CHR ''/'' \<notin> set s" and b: "CHR ''/'' \<in> set (lower s)"
  from b obtain x where "x \<in> set s" "lower_char x = CHR ''/''" by (auto simp: lower_def)
  with a show False using lower_char_slash by blast
qed

lemma set_before: "set (before c s) \<subseteq> set s"
  by (auto simp: before_def dest: set_takeWhileD)

lemma set_after: "set (after c s) \<subseteq> set s"
  by (auto simp: after_def dest: in_set_dropD set_dropWhileD)

lemma set_rafter: "set (rafter c s) \<subseteq> set s"
  by (auto simp: rafter_def dest: set_takeWhileD)

lemma netloc_no_slash: "urlparse okb s = Inr p \<Longrightarrow> CHR ''/'' \<notin> set (netloc p)"
  by (auto simp: urlparse_def Let_def splitnetloc_def split: prod.splits if_splits dest: set_takeWhileD)

lemma hostinfo_subset: "set (fst (hostinfo p)) \<subseteq> set (netloc p)"
  using set_before set_after set_rafter
  by (fastforce simp: hostinfo_def Let_def split: prod.splits if_splits)

lemma hostname_no_slash:
  assumes "CHR ''/'' \<notin> set (netloc p)" "hostname p = Some h"
  shows "CHR ''/'' \<notin> set h"
proof -
  let ?h0 = "fst (hostinfo p)"
  have n0: "CHR ''/'' \<notin> set ?h0" using assms(1) hostinfo_subset by blast
  have h: "h = lower (before CHR ''%'' ?h0) @ (if CHR ''%'' \<in> set ?h0 then ''%'' else []) @ after CHR ''%'' ?h0"
    using assms(2) by (auto simp: hostname_def Let_def split: if_splits)
  have "CHR ''/'' \<notin> set (lower (before CHR ''%'' ?h0))"
    using n0 set_before lower_no_slash by blast
  moreover have "CHR ''/'' \<notin> set (after CHR ''%'' ?h0)" using n0 set_after by blast
  ultimately show ?thesis by (simp add: h)
qed

lemma normalized_cases:
  assumes "get_normalized_hostname okb s = Inr (Some h)"
  obtains p h0 where "urlparse okb s = Inr p" "hostname p = Some h0"
    "h = lower h0 \<or> h = lower (netloc p)"
proof (cases "urlparse okb s")
  case (Inl e)
  with assms show ?thesis by (simp add: get_normalized_hostname_def)
next
  case (Inr p)
  show ?thesis
  proof (cases "hostname p")
    case None
    with Inr assms show ?thesis by (simp add: get_normalized_hostname_def)
  next
    case (Some h0)
    show ?thesis
    proof (cases "port p")
      case (Inl e)
      with Inr Some assms show ?thesis by (simp add: get_normalized_hostname_def)
    next
      case po: (Inr po)
      from assms have "h = lower h0 \<or> h = lower (netloc p)"
        using Inr Some po by (simp add: get_normalized_hostname_def Let_def split: if_splits)
      with Inr Some that show ?thesis by blast
    qed
  qed
qed

lemma normalized_no_slash:
  assumes "get_normalized_hostname okb s = Inr (Some h)"
  shows "CHR ''/'' \<notin> set h"
proof -
  from assms obtain p h0 where p: "urlparse okb s = Inr p" and h0: "hostname p = Some h0"
    and hh: "h = lower h0 \<or> h = lower (netloc p)" by (rule normalized_cases)
  have nl: "CHR ''/'' \<notin> set (netloc p)" using p by (rule netloc_no_slash)
  from hh show ?thesis using hostname_no_slash[OF nl h0] nl lower_no_slash by blast
qed

lemma split_scheme_subset: "set (snd (split_scheme u)) \<subseteq> set u"
  using set_after by (auto simp: split_scheme_def Let_def)

lemma no_slash_urlparse:
  assumes "CHR ''/'' \<notin> set s"
  shows "\<exists>sch. urlparse okb s = Inr \<lparr>scheme = sch, netloc = []\<rparr>"
proof -
  let ?u = "filter (\<lambda>c. \<not> is_unsafe_byte c) (dropWhile is_c0_or_space s)"
  have "set ?u \<subseteq> set s" by (auto dest: set_dropWhileD)
  then have "CHR ''/'' \<notin> set (snd (split_scheme ?u))" using assms split_scheme_subset by blast
  then have "take 2 (snd (split_scheme ?u)) \<noteq> ''//''"
    by (cases "snd (split_scheme ?u)") auto
  then show ?thesis by (auto simp: urlparse_def Let_def split: prod.splits)
qed

lemma hostname_empty_netloc: "netloc p = [] \<Longrightarrow> hostname p = None"
  by (simp add: hostname_def hostinfo_def rafter_def before_def after_def Let_def)

lemma no_slash_normalized:
  assumes "CHR ''/'' \<notin> set s"
  shows "get_normalized_hostname okb s = Inr None"
proof -
  from no_slash_urlparse[OF assms] obtain sch where
    u: "urlparse okb s = Inr \<lparr>scheme = sch, netloc = []\<rparr>" by blast
  have "hostname \<lparr>scheme = sch, netloc = []\<rparr> = None" by (rule hostname_empty_netloc) simp
  with u show ?thesis by (simp add: get_normalized_hostname_def)
qed

lemma hostname_nonempty:
  assumes "hostname p = Some h"
  shows "h \<noteq> []"
proof -
  let ?h0 = "fst (hostinfo p)"
  from assms have ne: "?h0 \<noteq> []"
    and h: "h = lower (before CHR ''%'' ?h0) @ (if CHR ''%'' \<in> set ?h0 then ''%'' else []) @ after CHR ''%'' ?h0"
    by (auto simp: hostname_def Let_def split: if_splits)
  show ?thesis
  proof (cases "CHR ''%'' \<in> set ?h0")
    case True
    then show ?thesis by (simp add: h)
  next
    case False
    then have "before CHR ''%'' ?h0 = ?h0" by (auto simp: before_def)
    with ne show ?thesis by (simp add: h lower_def)
  qed
qed

lemma normalized_nonempty:
  assumes "get_normalized_hostname okb s = Inr (Some h)"
  shows "h \<noteq> []"
proof -
  from assms obtain p h0 where p: "urlparse okb s = Inr p" and h0: "hostname p = Some h0"
    and hh: "h = lower h0 \<or> h = lower (netloc p)" by (rule normalized_cases)
  have "netloc p \<noteq> []" using h0 hostname_empty_netloc[of p] by auto
  with hh hostname_nonempty[OF h0] show ?thesis by (auto simp: lower_def)
qed

lemma util_not_empty: "get_normalized_hostname_util okb u \<noteq> Some []"
proof
  assume a: "get_normalized_hostname_util okb u = Some []"
  then obtain s where "get_normalized_hostname okb s = Inr (Some [])"
    by (auto simp: get_normalized_hostname_util_def split: option.splits if_splits sum.splits)
  then show False using normalized_nonempty by blast
qed

lemma falsy_util: "falsy (get_normalized_hostname_util okb u) \<longleftrightarrow> get_normalized_hostname_util okb u = None"
  by (simp add: falsy_def util_not_empty)

lemma script_uri_nonempty: "is_script_uri s \<Longrightarrow> s \<noteq> []"
  by (auto simp: is_script_uri_def startswith_def)

lemma util_empty: "get_normalized_hostname_util okb (Some []) = None"
  by (simp add: get_normalized_hostname_util_def)

section \<open>The redirect validator\<close>

text \<open>
  Whenever the terminal location, stripped of surrounding whitespace, begins with the
  lower-case text \<open>javascript:\<close>, \<open>data:\<close> or \<open>vbscript:\<close>, \<open>validate_redirect\<close> returns
  true, for every original URL, payload and callback host.
\<close>

lemma validate_redirect_script_uri:
  "is_script_uri (strip t) \<Longrightarrow> validate_redirect okb orig t p cb"
  by (simp add: validate_redirect_def Let_def script_uri_nonempty)

text \<open>
  C5 (the code at the failing input). The terminal \<open>JavaScript:alert(1)\<close> begins, compared
  case-insensitively, with \<open>javascript:\<close>, and \<open>urlparse\<close> reads its scheme as \<open>javascript\<close>.
  The prefix test of the validator is case-sensitive: it misses the terminal, which has no
  host, and the result is false, while the same terminal in lower case is accepted.
\<close>

theorem validate_redirect_mixed_case_rejected:
  "is_script_uri (lower ''JavaScript:alert(1)'')
   \<and> map_sum id scheme (urlparse no_bracketed ''JavaScript:alert(1)'') = Inr ''javascript''
   \<and> validate_redirect no_bracketed ''http://a.com'' ''javascript:alert(1)'' (Some ''http://evil.com'') None
   \<and> \<not> validate_redirect no_bracketed ''http://a.com'' ''JavaScript:alert(1)'' (Some ''http://evil.com'') None"
  by code_simp

text \<open>
  C1 (as amended). With no callback host configured and a terminal location that, once
  stripped of surrounding whitespace, does not begin with one of the three script prefixes,
  \<open>validate_redirect\<close> returns true exactly when the stripped terminal has a normalised host,
  that host is the payload's normalised host, and the original's normalised host is a
  different value (or absent).
\<close>

theorem validate_redirect_no_callback:
  assumes "falsy cb" and "\<not> is_script_uri (strip t)"
  shows "validate_redirect okb orig t (Some p) cb \<longleftrightarrow>
     (\<exists>h. get_normalized_hostname_util okb (Some (strip t)) = Some h
        \<and> get_normalized_hostname_util okb (Some p) = Some h
        \<and> get_normalized_hostname_util okb (Some orig) \<noteq> Some h)"
proof (cases "strip t = []")
  case True
  then show ?thesis by (simp add: validate_redirect_def util_empty)
next
  case False
  have r: "falsy (get_normalized_hostname_util okb (Some (strip t)))
           = (get_normalized_hostname_util okb (Some (strip t)) = None)"
    and q: "falsy (get_normalized_hostname_util okb (Some p))
           = (get_normalized_hostname_util okb (Some p) = None)"
    by (rule falsy_util)+
  from False assms have "validate_redirect okb orig t (Some p) cb \<longleftrightarrow>
      (get_normalized_hostname_util okb (Some (strip t)) \<noteq> None
       \<and> get_normalized_hostname_util okb (Some p) \<noteq> None
       \<and> get_normalized_hostname_util okb (Some (strip t)) = get_normalized_hostname_util okb (Some p)
       \<and> get_normalized_hostname_util okb (Some orig) \<noteq> get_normalized_hostname_util okb (Some p))"
    unfolding validate_redirect_def Let_def r q by auto
  then show ?thesis by auto
qed

theorem validate_redirect_no_callback_witness:
  "falsy None \<and> \<not> is_script_uri (strip ''http://evil.com'')
   \<and> validate_redirect no_bracketed ''http://a.com'' ''http://evil.com'' (Some ''http://evil.com'') None
   \<and> \<not> validate_redirect no_bracketed ''http://evil.com'' ''http://evil.com'' (Some ''http://evil.com'') None"
proof -
  have h1: "falsy None" by (simp add: falsy_def)
  have h2: "\<not> is_script_uri (strip ''http://evil.com'')" by code_simp
  have e: "get_normalized_hostname_util no_bracketed (Some (strip ''http://evil.com'')) = Some ''evil.com''"
    "get_normalized_hostname_util no_bracketed (Some ''http://evil.com'') = Some ''evil.com''"
    "get_normalized_hostname_util no_bracketed (Some ''http://a.com'') = Some ''a.com''"
    by code_simp+
  show ?thesis
    using validate_redirect_no_callback[OF h1 h2, of no_bracketed "''http://a.com''" "''http://evil.com''"]
      validate_redirect_no_callback[OF h1 h2, of no_bracketed "''http://evil.com''" "''http://evil.com''"]
      h1 h2 e by simp
qed

text \<open>
  Without the stripping the statement fails: a terminal with a leading space does not begin
  with \<open>javascript:\<close> and has no normalised host, and the validator accepts it.
\<close>

theorem validate_redirect_leading_space_counterexample:
  "\<not> is_script_uri '' javascript:alert(1)''
   \<and> get_normalized_hostname_util no_bracketed (Some '' javascript:alert(1)'') = None
   \<and> validate_redirect no_bracketed ''http://a.com'' '' javascript:alert(1)'' (Some ''http://evil.com'') None"
  by code_simp

section \<open>Hostname normalisation\<close>

text \<open>
  C6 (as amended). Whenever normalisation yields a host, normalising that host again yields
  no host: the result contains no slash, so \<open>urlparse\<close> finds no network location in it.
  Normalisation is idempotent only on inputs without a host.
\<close>

theorem normalize_twice_nohost:
  assumes "get_normalized_hostname_util okb (Some x) = Some h"
  shows "get_normalized_hostname_util okb (Some h) = None"
proof -
  from assms have "get_normalized_hostname okb x = Inr (Some h)"
    by (simp add: get_normalized_hostname_util_def split: if_splits sum.splits)
  then have "CHR ''/'' \<notin> set h" by (rule normalized_no_slash)
  then have "get_normalized_hostname okb h = Inr None" by (rule no_slash_normalized)
  then show ?thesis by (simp add: get_normalized_hostname_util_def)
qed

theorem normalize_twice_witness:
  "get_normalized_hostname_util no_bracketed (Some ''http://Example.com:8080/x'') = Some ''example.com:8080''
   \<and> get_normalized_hostname_util no_bracketed (Some ''example.com:8080'') = None"
proof -
  have h: "get_normalized_hostname_util no_bracketed (Some ''http://Example.com:8080/x'') = Some ''example.com:8080''"
    by code_simp
  from normalize_twice_nohost[OF h] h show ?thesis by blast
qed

theorem normalize_not_idempotent_counterexample:
  "get_normalized_hostname_util no_bracketed (Some ''http://example.com/x'') = Some ''example.com''
   \<and> get_normalized_hostname_util no_bracketed (get_normalized_hostname_util no_bracketed (Some ''http://example.com/x''))
       \<noteq> get_normalized_hostname_util no_bracketed (Some ''http://example.com/x'')"
  by code_simp

section \<open>The severity classifier\<close>

text \<open>
  C7 (as amended). For a terminal location that starts with \<open>http://\<close>, \<open>https://\<close> or \<open>//\<close>
  and to which neither High rule applies, the classifier compares the lower-cased netlocs of
  the original and the terminal as \<open>urlparse\<close> returns them, user information and port
  included and default ports not stripped: the severity is Medium when the terminal has a
  netloc and it differs from the original's (an absent one included), and Low otherwise, a
  parse failure included.
\<close>

theorem severity_by_netloc:
  assumes "startswith t ''http://'' \<or> startswith t ''https://'' \<or> startswith t ''//''"
    and "\<not> is_script_uri t"
    and "\<not> is_external_redirect okb orig t p"
  shows "determine_severity okb orig p (Some t) =
     Inr (case urlparse okb orig of
            Inl e \<Rightarrow> ''Low''
          | Inr po \<Rightarrow>
              (case urlparse okb t of
                 Inl e \<Rightarrow> ''Low''
               | Inr pt \<Rightarrow>
                   if netloc pt \<noteq> [] \<and> lower (netloc po) \<noteq> lower (netloc pt)
                   then ''Medium'' else ''Low''))"
proof (cases "urlparse okb orig")
  case (Inl e)
  with assms show ?thesis by (simp add: determine_severity_def)
next
  case po: (Inr po)
  show ?thesis
  proof (cases "urlparse okb t")
    case (Inl e)
    with po assms show ?thesis by (simp add: determine_severity_def)
  next
    case (Inr pt)
    with po assms show ?thesis
      by (auto simp: determine_severity_def lower_netloc_def falsy_def Let_def lower_def)
  qed
qed

theorem severity_by_netloc_witness:
  "(startswith ''http://b.com'' ''http://'' \<or> startswith ''http://b.com'' ''https://''
      \<or> startswith ''http://b.com'' ''//'')
   \<and> \<not> is_script_uri ''http://b.com''
   \<and> \<not> is_external_redirect no_bracketed ''http://a.com'' ''http://b.com'' ''http://evil.com''
   \<and> determine_severity no_bracketed ''http://a.com'' ''http://evil.com'' (Some ''http://b.com'')
       = Inr ''Medium''"
proof -
  have h1: "startswith ''http://b.com'' ''http://'' \<or> startswith ''http://b.com'' ''https://''
      \<or> startswith ''http://b.com'' ''//''" by code_simp
  have h2: "\<not> is_script_uri ''http://b.com''" by code_simp
  have h3: "\<not> is_external_redirect no_bracketed ''http://a.com'' ''http://b.com'' ''http://evil.com''"
    by code_simp
  have u: "urlparse no_bracketed ''http://a.com'' = Inr \<lparr>scheme = ''http'', netloc = ''a.com''\<rparr>"
    "urlparse no_bracketed ''http://b.com'' = Inr \<lparr>scheme = ''http'', netloc = ''b.com''\<rparr>"
    by code_simp+
  have l: "lower ''a.com'' \<noteq> lower ''b.com''" by code_simp
  from severity_by_netloc[OF h1 h2 h3] h1 h2 h3 u l
  show ?thesis by simp
qed

text \<open>
  With the default port written out in the original, the two normalised hosts are equal and
  the severity is Medium, not Low.
\<close>

theorem severity_default_port_counterexample:
  "startswith ''http://a.com/page2'' ''http://''
   \<and> \<not> is_script_uri ''http://a.com/page2''
   \<and> \<not> is_external_redirect no_bracketed ''http://a.com:80/'' ''http://a.com/page2'' ''http://evil.com''
   \<and> get_normalized_hostname_util no_bracketed (Some ''http://a.com:80/'') = Some ''a.com''
   \<and> get_normalized_hostname_util no_bracketed (Some ''http://a.com/page2'') = Some ''a.com''
   \<and> determine_severity no_bracketed ''http://a.com:80/'' ''http://evil.com'' (Some ''http://a.com/page2'')
       = Inr ''Medium''"
  by code_simp

section \<open>The header-injection tester\<close>

lemma validate_needs_host:
  "validate_redirect okb orig t p cb \<Longrightarrow>
     is_script_uri (strip t) \<or> get_normalized_hostname_util okb (Some (strip t)) \<noteq> None"
  by (auto simp: validate_redirect_def Let_def falsy_def split: if_splits)

lemma location_or_empty_Some:
  "location_or_empty r \<noteq> [] \<Longrightarrow> header_get (headers r) ''Location'' = Some (location_or_empty r)"
  by (auto simp: location_or_empty_def split: option.splits)

text \<open>
  C10 (as amended). One attempt of the header-injection tester sends exactly one request,
  the target with the injected header, and follows nothing: the scanner ends in the state
  reached by that single request. Every result reports as \<open>final_location\<close> the Location
  header of that response as received, and a vulnerable result has a Location value that,
  stripped of surrounding whitespace, begins with one of the three script prefixes or has a
  normalised host.
\<close>

theorem header_injection_one_request:
  assumes "test_header_injection E cfg send u h p s = (res, s')"
  shows "\<exists>resp w. send ((get_request u)\<lparr>rq_headers := [(h, p)]\<rparr>) (world s) = (resp, w)
       \<and> s' = \<lparr>total_requests = total_requests s + 1, world = w\<rparr>
       \<and> (\<forall>f. res = Some f \<longrightarrow>
             resp \<noteq> None
           \<and> final_location f = header_get (headers (the resp)) ''Location''
           \<and> (vulnerable f \<longrightarrow>
                 (\<exists>loc. final_location f = Some loc
                    \<and> (is_script_uri (strip loc)
                        \<or> get_normalized_hostname_util (ok_bracketed E) (Some (strip loc)) \<noteq> None))))"
proof -
  obtain resp w where sw: "send ((get_request u)\<lparr>rq_headers := [(h, p)]\<rparr>) (world s) = (resp, w)"
    by (cases "send ((get_request u)\<lparr>rq_headers := [(h, p)]\<rparr>) (world s)") auto
  let ?s1 = "\<lparr>total_requests = total_requests s + 1, world = w\<rparr>"
  have mr: "make_request send ((get_request u)\<lparr>rq_headers := [(h, p)]\<rparr>) s = (resp, ?s1)"
    by (simp add: make_request_def sw)
  show ?thesis
  proof (cases "truthy resp")
    case False
    with assms mr have "res = None" "s' = ?s1" by (auto simp: test_header_injection_def)
    with sw show ?thesis by auto
  next
    case True
    then obtain r where r: "resp = Some r" by (auto simp: truthy_def split: option.splits)
    show ?thesis
    proof (cases "is_redirect_status (status_code r) \<and> location_or_empty r \<noteq> []
                  \<and> validate_redirect (ok_bracketed E) u (location_or_empty r) (Some p) (callback_url cfg)")
      case v: True
      with assms mr True r have s': "s' = ?s1"
        and f: "\<exists>f. res = Some f \<and> final_location f = Some (location_or_empty r)"
        by (auto simp: test_header_injection_def Let_def)
      from v have "header_get (headers r) ''Location'' = Some (location_or_empty r)"
        by (simp add: location_or_empty_Some)
      moreover from v have "is_script_uri (strip (location_or_empty r))
          \<or> get_normalized_hostname_util (ok_bracketed E) (Some (strip (location_or_empty r))) \<noteq> None"
        using validate_needs_host by blast
      ultimately show ?thesis using sw s' f r by auto
    next
      case nv: False
      with assms mr True r have s': "s' = ?s1"
        and f: "\<exists>f. res = Some f \<and> \<not> vulnerable f
                  \<and> final_location f = header_get (headers r) ''Location''"
        by (auto simp: test_header_injection_def Let_def blank_finding_def)
      then show ?thesis using sw r by auto
    qed
  qed
qed

theorem header_injection_one_request_witness:
  "test_header_injection demo_env demo_config open_server target ''X-Forwarded-Host'' ''http://evil.com'' start
     = (fst (test_header_injection demo_env demo_config open_server target ''X-Forwarded-Host''
               ''http://evil.com'' start),
        snd (test_header_injection demo_env demo_config open_server target ''X-Forwarded-Host''
               ''http://evil.com'' start))
   \<and> total_requests (snd (test_header_injection demo_env demo_config open_server target
                             ''X-Forwarded-Host'' ''http://evil.com'' start)) = 1
   \<and> map_option final_location
        (fst (test_header_injection demo_env demo_config open_server target ''X-Forwarded-Host''
                ''http://evil.com'' start))
     = Some (Some ''http://evil.com/'')"
proof -
  have e: "test_header_injection demo_env demo_config open_server target ''X-Forwarded-Host'' ''http://evil.com'' start
     = (fst (test_header_injection demo_env demo_config open_server target ''X-Forwarded-Host''
               ''http://evil.com'' start),
        snd (test_header_injection demo_env demo_config open_server target ''X-Forwarded-Host''
               ''http://evil.com'' start))" by simp
  have v: "fst (test_header_injection demo_env demo_config open_server target ''X-Forwarded-Host''
               ''http://evil.com'' start) \<noteq> None" by code_simp
  have l: "header_get (headers (the (fst (open_server
              ((get_request target)\<lparr>rq_headers := [(''X-Forwarded-Host'', ''http://evil.com'')]\<rparr>) (world start)))))
             ''Location'' = Some ''http://evil.com/''" by code_simp
  from header_injection_one_request[OF e] obtain resp w where
    sw: "open_server ((get_request target)\<lparr>rq_headers := [(''X-Forwarded-Host'', ''http://evil.com'')]\<rparr>)
           (world start) = (resp, w)"
    and s': "snd (test_header_injection demo_env demo_config open_server target ''X-Forwarded-Host''
               ''http://evil.com'' start) = \<lparr>total_requests = total_requests start + 1, world = w\<rparr>"
    and f: "\<forall>f. fst (test_header_injection demo_env demo_config open_server target ''X-Forwarded-Host''
               ''http://evil.com'' start) = Some f \<longrightarrow>
             resp \<noteq> None
           \<and> final_location f = header_get (headers (the resp)) ''Location''
           \<and> (vulnerable f \<longrightarrow>
                 (\<exists>loc. final_location f = Some loc
                    \<and> (is_script_uri (strip loc)
                        \<or> get_normalized_hostname_util (ok_bracketed demo_env) (Some (strip loc)) \<noteq> None)))"
    by (elim exE conjE)
  from v obtain f0 where f0: "fst (test_header_injection demo_env demo_config open_server target
        ''X-Forwarded-Host'' ''http://evil.com'' start) = Some f0" by blast
  from f f0 sw l have fl: "final_location f0 = Some ''http://evil.com/''" by simp
  have c2: "total_requests (snd (test_header_injection demo_env demo_config open_server target
                             ''X-Forwarded-Host'' ''http://evil.com'' start)) = 1"
    using s' by (simp add: start_def)
  have c3: "map_option final_location
        (fst (test_header_injection demo_env demo_config open_server target ''X-Forwarded-Host''
                ''http://evil.com'' start))
     = Some (Some ''http://evil.com/'')"
    using f0 fl by simp
  show ?thesis by (intro conjI) (rule e, rule c2, rule c3)
qed

text \<open>
  A Location value that begins with a form feed has no host and does not begin with a
  script prefix; the validator strips it and the result is vulnerable.
\<close>

theorem header_injection_formfeed_counterexample:
  "\<not> is_script_uri (CHR 0x0C # ''javascript:alert(1)'')
   \<and> get_normalized_hostname_util no_bracketed (Some (CHR 0x0C # ''javascript:alert(1)'')) = None
   \<and> map_option vulnerable
        (fst (test_header_injection demo_env demo_config formfeed_script_server target ''Host''
                ''http://evil.com'' start))
     = Some True"
  by code_simp

section \<open>The redirect chain of the URL-parameter tester\<close>

lemma make_request_count:
  "make_request send rq s = (r, s1) \<Longrightarrow> total_requests s1 = total_requests s + 1"
  by (auto simp: make_request_def split: prod.splits)

declare follow_chain.simps [simp del]

lemma follow_chain_bound:
  "follow_chain E send maxr c base cur chain final hdrs s = ((chain', final', hdrs'), s')
   \<Longrightarrow> length chain' \<le> length chain + nat (maxr - c)
       \<and> total_requests s' \<le> total_requests s + nat (maxr - c)"
proof (induction E send maxr c base cur chain final hdrs s rule: follow_chain.induct)
  case (1 E send maxr c base cur chain final hdrs s)
  show ?case
  proof (cases "c < maxr")
    case False
    with "1.prems" show ?thesis by (simp add: follow_chain.simps)
  next
    case lt: True
    show ?thesis
    proof (cases "urljoin E base cur")
      case (Inl e)
      with lt "1.prems" show ?thesis by (simp add: follow_chain.simps)
    next
      case (Inr u)
      obtain fr s1 where mr: "make_request send (get_request u) s = (fr, s1)"
        by (cases "make_request send (get_request u) s") auto
      have cnt: "total_requests s1 = total_requests s + 1" using mr by (rule make_request_count)
      have pos: "nat (maxr - c) = nat (maxr - (c + 1)) + 1" using lt by simp
      show ?thesis
      proof (cases "\<exists>r. fr = Some r \<and> ok r \<and> is_redirect_status (status_code r)
                      \<and> location_or_empty r \<noteq> []")
        case False
        with lt Inr mr "1.prems" have "chain' = chain" "s' = s1"
          by (auto simp: follow_chain.simps split: option.splits if_splits)
        with cnt pos show ?thesis by simp
      next
        case True
        then obtain r where r: "fr = Some r" "ok r" "is_redirect_status (status_code r)"
          "location_or_empty r \<noteq> []" by blast
        with lt Inr mr "1.prems"
        have rec: "follow_chain E send maxr (c + 1) u (location_or_empty r)
                     (chain @ [location_or_empty r]) (location_or_empty r) (headers r) s1
                   = ((chain', final', hdrs'), s')"
          by (simp add: follow_chain.simps)
        from "1.IH"[OF lt Inr mr[symmetric] refl r(1) _ _ _ rec] r
        have "length chain' \<le> length (chain @ [location_or_empty r]) + nat (maxr - (c + 1))
              \<and> total_requests s' \<le> total_requests s1 + nat (maxr - (c + 1))" by simp
        with cnt pos show ?thesis by simp
      qed
    qed
  qed
qed


lemma follow_chain_exact:
  "follow_chain E send maxr c base cur chain final hdrs s = ((chain', final', hdrs'), s')
   \<Longrightarrow> chain_redirects E send (nat (maxr - c)) base cur s
   \<Longrightarrow> chain \<noteq> [] \<Longrightarrow> final = last chain
   \<Longrightarrow> length chain' = length chain + nat (maxr - c) \<and> final' = last chain'
       \<and> total_requests s' = total_requests s + nat (maxr - c)"
proof (induction E send maxr c base cur chain final hdrs s rule: follow_chain.induct)
  case (1 E send maxr c base cur chain final hdrs s)
  show ?case
  proof (cases "c < maxr")
    case False
    with "1.prems"(1,3,4) show ?thesis by (auto simp: follow_chain.simps)
  next
    case lt: True
    then have pos: "nat (maxr - c) = Suc (nat (maxr - (c + 1)))" by simp
    from "1.prems"(2) obtain u where u: "urljoin E base cur = Inr u"
      unfolding pos by (cases "urljoin E base cur") auto
    obtain fr s1 where mr: "make_request send (get_request u) s = (fr, s1)"
      by (metis prod.exhaust)
    from "1.prems"(2) u mr obtain r where fr: "fr = Some r"
      and r: "ok r" "is_redirect_status (status_code r)" "location_or_empty r \<noteq> []"
      and cr: "chain_redirects E send (nat (maxr - (c + 1))) u (location_or_empty r) s1"
      unfolding pos by (cases fr) auto
    have cnt: "total_requests s1 = total_requests s + 1" using mr by (rule make_request_count)
    from lt u mr fr r "1.prems"(1)
    have rec: "follow_chain E send maxr (c + 1) u (location_or_empty r)
                 (chain @ [location_or_empty r]) (location_or_empty r) (headers r) s1
               = ((chain', final', hdrs'), s')"
      by (simp add: follow_chain.simps)
    have "length chain' = length (chain @ [location_or_empty r]) + nat (maxr - (c + 1))
          \<and> final' = last chain'
          \<and> total_requests s' = total_requests s1 + nat (maxr - (c + 1))"
      by (rule "1.IH"[OF lt u mr[symmetric] refl fr _ _ _ rec cr]) (use r in simp_all)
    with pos cnt show ?thesis by simp
  qed
qed

text \<open>
  C2 (as amended). The loop is entered with the first Location already in the chain and adds
  at most one entry per followed request, of which there are at most \<open>max_hops\<close>: the chain
  never has more than \<open>max_hops + 1\<close> entries (one entry when \<open>max_hops\<close> is not positive).
  For \<open>max_hops\<close> of at least one and a synthetic chain of \<open>max_hops + 1\<close> redirects, that
  is when each of the \<open>max_hops\<close> followed requests is answered by a redirect, whatever any
  later request would be answered, the chain has exactly \<open>max_hops + 1\<close> entries after
  exactly \<open>max_hops\<close> followed requests, and the terminal reported is its last entry: the
  Location returned by the last followed request, which is itself not requested. Nothing is
  stated of the terminal for \<open>max_hops\<close> below one, where line 54 gives the same bound to
  the session of \<open>requests\<close>, which then refuses a redirecting response by itself.
\<close>

theorem chain_at_most_max_hops_plus_one:
  assumes "follow_chain E send maxr 0 base first [first] first hdrs s = ((chain, final, hdrs'), s')"
  shows "length chain \<le> nat maxr + 1
     \<and> total_requests s' \<le> total_requests s + nat maxr
     \<and> (0 < maxr \<and> chain_redirects E send (nat maxr) base first s
        \<longrightarrow> length chain = nat maxr + 1 \<and> final = last chain
            \<and> total_requests s' = total_requests s + nat maxr)"
proof -
  from follow_chain_bound[OF assms]
  have a: "length chain \<le> nat maxr + 1 \<and> total_requests s' \<le> total_requests s + nat maxr"
    by simp
  have b: "length chain = nat maxr + 1 \<and> final = last chain
            \<and> total_requests s' = total_requests s + nat maxr"
    if "chain_redirects E send (nat maxr) base first s"
    using follow_chain_exact[OF assms] that by simp
  from a b show ?thesis by blast
qed

theorem chain_at_most_max_hops_plus_one_witness:
  "follow_chain demo_env exact_server 2 0 target ''http://evil.com/a'' [''http://evil.com/a'']
       ''http://evil.com/a'' [] start
     = (([''http://evil.com/a'', ''http://evil.com/aa'', ''http://evil.com/aaa''],
         ''http://evil.com/aaa'', [(''Location'', ''http://evil.com/aaa'')]),
        \<lparr>total_requests = 2, world = ()\<rparr>)
   \<and> (0::int) < 2
   \<and> chain_redirects demo_env exact_server (nat 2) target ''http://evil.com/a'' start
   \<and> map_option status_code (fst (exact_server (get_request ''http://evil.com/aaa'') ())) = Some 200
   \<and> length [''http://evil.com/a'', ''http://evil.com/aa'', ''http://evil.com/aaa''] = nat 2 + 1
   \<and> ''http://evil.com/aaa'' = last [''http://evil.com/a'', ''http://evil.com/aa'', ''http://evil.com/aaa'']"
proof -
  have e: "follow_chain demo_env exact_server 2 0 target ''http://evil.com/a'' [''http://evil.com/a'']
       ''http://evil.com/a'' [] start
     = (([''http://evil.com/a'', ''http://evil.com/aa'', ''http://evil.com/aaa''],
         ''http://evil.com/aaa'', [(''Location'', ''http://evil.com/aaa'')]),
        \<lparr>total_requests = 2, world = ()\<rparr>)"
    by code_simp
  have p: "(0::int) < 2" by simp
  have c: "chain_redirects demo_env exact_server (nat 2) target ''http://evil.com/a'' start"
    by code_simp
  have t: "map_option status_code (fst (exact_server (get_request ''http://evil.com/aaa'') ())) = Some 200"
    by code_simp
  from chain_at_most_max_hops_plus_one[OF e] e p c t show ?thesis by simp
qed

text \<open>
  With two hops configured, the chain reported for a chain of three redirects has three
  entries.
\<close>

theorem chain_longer_than_max_hops_counterexample:
  "max_redirects demo_config = 2
   \<and> map_option redirect_chain
        (fst (test_url_parameter demo_env demo_config exact_server target ''next'' ''http://evil.com'' start))
     = Some (Some [''http://evil.com/a'', ''http://evil.com/aa'', ''http://evil.com/aaa''])"
  by code_simp

section \<open>Script URIs and meta refresh in the URL-parameter tester\<close>

text \<open>
  C3 (the code at the failing input). The target answers the injected request with a
  redirect to \<open>javascript:alert(1)\<close>, which cannot be fetched: the chain ends there. The
  validator accepts this terminal, as the header, form and cookie testers would, but
  \<open>test_url_parameter\<close> asks \<open>_is_external_redirect\<close>, which rejects a terminal without a
  host, and the result is not vulnerable.
\<close>

theorem url_parameter_script_uri_not_vulnerable:
  "fst (follow_chain demo_env script_server (max_redirects demo_config) 0
          (set_query_param demo_env target ''next'' ''javascript:alert(1)'')
          ''javascript:alert(1)'' [''javascript:alert(1)''] ''javascript:alert(1)''
          [(''Location'', ''javascript:alert(1)'')] \<lparr>total_requests = 1, world = ()\<rparr>)
     = ([''javascript:alert(1)''], ''javascript:alert(1)'', [(''Location'', ''javascript:alert(1)'')])
   \<and> is_script_uri ''javascript:alert(1)''
   \<and> validate_redirect no_bracketed target ''javascript:alert(1)'' (Some ''javascript:alert(1)'') None
   \<and> map_option vulnerable
        (fst (test_url_parameter demo_env demo_config script_server target ''next''
                ''javascript:alert(1)'' start))
     = Some False"
  by code_simp

text \<open>
  The two calls of \<open>_determine_severity\<close> with two arguments raise: no result of
  \<open>test_url_parameter\<close> is labelled Meta Refresh or JavaScript Redirect.
\<close>

lemma meta_check_not_returned: "fst (meta_check E cfg send parsed base content s) = Fell"
  by (auto simp: meta_check_def determine_severity_two_args_def Let_def
           split: option.splits prod.splits)

lemma js_scan_not_returned: "fst (js_scan E cfg send parsed base ms s) \<noteq> Returned f"
  by (induction ms arbitrary: s)
     (auto simp: determine_severity_two_args_def Let_def split: prod.splits)

lemma meta_refresh_never_reported:
  assumes "test_url_parameter E cfg send u param p s = (Some f, s')"
  shows "finding_method f = None \<or> finding_method f = Some ''URL Parameter''"
proof (cases "urlparse (ok_bracketed E) u")
  case (Inl e)
  with assms show ?thesis by (simp add: test_url_parameter_def)
next
  case (Inr parsed)
  obtain response s1 where mr:
    "make_request send (get_request (set_query_param E u param p)) s = (response, s1)"
    by (cases "make_request send (get_request (set_query_param E u param p)) s") auto
  define base where "base = blank_finding\<lparr>url := set_query_param E u param p, original_url := u,
      parameter := Some param, payload := p, result_status_code := status_code (the response)\<rparr>"
  have mb: "finding_method base = None" by (simp add: base_def blank_finding_def)
  show ?thesis
  proof (cases "truthy response")
    case False
    with assms Inr mr show ?thesis by (simp add: test_url_parameter_def)
  next
    case tr: True
    show ?thesis
    proof (cases "is_redirect_status (status_code (the response))")
      case True
      obtain chain final hdrs s2 where fc:
        "follow_chain E send (max_redirects cfg) 0 (set_query_param E u param p)
           (location_or_empty (the response)) [location_or_empty (the response)]
           (location_or_empty (the response)) (headers (the response)) s1
         = ((chain, final, hdrs), s2)"
        by (metis prod.exhaust)
      from assms Inr mr tr True fc mb show ?thesis
        by (auto simp: test_url_parameter_def Let_def base_def[symmetric] split: if_splits)
    next
      case nr: False
      show ?thesis
      proof (cases "status_code (the response) = 200")
        case False
        with assms Inr mr tr nr mb show ?thesis
          by (auto simp: test_url_parameter_def Let_def base_def[symmetric])
      next
        case True
        obtain s2 where mc: "meta_check E cfg send parsed base (lower (resp_text (the response))) s1
            = (Fell, s2)"
          using meta_check_not_returned by (metis prod.collapse)
        obtain x s3 where js: "js_scan E cfg send parsed base
            (concat (map (\<lambda>i. js_findall E i (lower (resp_text (the response)))) js_patterns)) s2
            = (x, s3)" by (metis prod.exhaust)
        have nx: "x \<noteq> Returned f" using js js_scan_not_returned by (metis fst_conv)
        have eq: "test_url_parameter E cfg send u param p s =
            (case meta_check E cfg send parsed base (lower (resp_text (the response))) s1 of
               (Returned f, s2) \<Rightarrow> (Some f, s2)
             | (Raised e, s2) \<Rightarrow> (None, s2)
             | (Fell, s2) \<Rightarrow>
                 (case js_scan E cfg send parsed base
                         (concat (map (\<lambda>i. js_findall E i (lower (resp_text (the response))))
                            js_patterns)) s2 of
                    (Returned f, s3) \<Rightarrow> (Some f, s3)
                  | (Raised e, s3) \<Rightarrow> (None, s3)
                  | (Fell, s3) \<Rightarrow> (Some base, s3)))"
          using Inr mr tr nr unfolding base_def
          by (simp add: test_url_parameter_def Let_def if_P[OF True])
        from assms nx mb show ?thesis by (cases x) (auto simp: eq mc js)
      qed
    qed
  qed
qed

text \<open>
  C4 (the code at the failing input). The page holds a meta refresh to the configured
  callback host; the follow-up request is answered 200 and the validator accepts the
  candidate, both as the code calls it and as the other testers call it. The result of
  \<open>test_url_parameter\<close> is not vulnerable.
\<close>

theorem meta_refresh_finding_lost:
  "meta_search demo_env (lower meta_body) = Some ''http://cb.example/landing''
   \<and> fst (make_request meta_server (get_request ''http://cb.example/landing'')
            \<lparr>total_requests = 1, world = ()\<rparr>)
     = Some \<lparr>status_code = 200, headers = [], resp_text = []\<rparr>
   \<and> validate_redirect no_bracketed ''http://evil.com'' ''http://cb.example/landing''
        (Some ''http://cb.example'') None
   \<and> validate_redirect no_bracketed target ''http://cb.example/landing''
        (Some ''http://evil.com'') (Some ''http://cb.example'')
   \<and> map_option vulnerable
        (fst (test_url_parameter demo_env (demo_config\<lparr>callback_url := Some ''http://cb.example''\<rparr>)
                meta_server target ''next'' ''http://evil.com'' start))
     = Some False"
  by code_simp

text \<open>
  The chain that a result of \<open>test_url_parameter\<close> reports is the chain of the loop, and
  obeys its bound.
\<close>

lemma reported_chain_bound:
  assumes "test_url_parameter E cfg send u param p s = (Some f, s')"
    and "redirect_chain f = Some chain"
  shows "length chain \<le> nat (max_redirects cfg) + 1"
proof (cases "urlparse (ok_bracketed E) u")
  case (Inl e)
  with assms show ?thesis by (simp add: test_url_parameter_def)
next
  case (Inr parsed)
  obtain response s1 where mr:
    "make_request send (get_request (set_query_param E u param p)) s = (response, s1)"
    by (cases "make_request send (get_request (set_query_param E u param p)) s") auto
  define base where "base = blank_finding\<lparr>url := set_query_param E u param p, original_url := u,
      parameter := Some param, payload := p, result_status_code := status_code (the response)\<rparr>"
  have cb: "redirect_chain base = None" by (simp add: base_def blank_finding_def)
  show ?thesis
  proof (cases "truthy response")
    case False
    with assms Inr mr show ?thesis by (simp add: test_url_parameter_def)
  next
    case tr: True
    show ?thesis
    proof (cases "is_redirect_status (status_code (the response))")
      case True
      obtain ch final hdrs s2 where fc:
        "follow_chain E send (max_redirects cfg) 0 (set_query_param E u param p)
           (location_or_empty (the response)) [location_or_empty (the response)]
           (location_or_empty (the response)) (headers (the response)) s1
         = ((ch, final, hdrs), s2)"
        by (metis prod.exhaust)
      from follow_chain_bound[OF fc] have b: "length ch \<le> nat (max_redirects cfg) + 1" by simp
      from assms Inr mr tr True fc cb have "chain = ch"
        by (auto simp: test_url_parameter_def Let_def base_def[symmetric] split: if_splits)
      with b show ?thesis by simp
    next
      case nr: False
      show ?thesis
      proof (cases "status_code (the response) = 200")
        case False
        with assms Inr mr tr nr cb show ?thesis
          by (auto simp: test_url_parameter_def Let_def base_def[symmetric])
      next
        case True
        obtain s2 where mc: "meta_check E cfg send parsed base (lower (resp_text (the response))) s1
            = (Fell, s2)"
          using meta_check_not_returned by (metis prod.collapse)
        obtain x s3 where js: "js_scan E cfg send parsed base
            (concat (map (\<lambda>i. js_findall E i (lower (resp_text (the response)))) js_patterns)) s2
            = (x, s3)" by (metis prod.exhaust)
        have nx: "x \<noteq> Returned f" using js js_scan_not_returned by (metis fst_conv)
        have eq: "test_url_parameter E cfg send u param p s =
            (case meta_check E cfg send parsed base (lower (resp_text (the response))) s1 of
               (Returned f, s2) \<Rightarrow> (Some f, s2)
             | (Raised e, s2) \<Rightarrow> (None, s2)
             | (Fell, s2) \<Rightarrow>
                 (case js_scan E cfg send parsed base
                         (concat (map (\<lambda>i. js_findall E i (lower (resp_text (the response))))
                            js_patterns)) s2 of
                    (Returned f, s3) \<Rightarrow> (Some f, s3)
                  | (Raised e, s3) \<Rightarrow> (None, s3)
                  | (Fell, s3) \<Rightarrow> (Some base, s3)))"
          using Inr mr tr nr unfolding base_def
          by (simp add: test_url_parameter_def Let_def if_P[OF True])
        from assms nx cb show ?thesis by (cases x) (auto simp: eq mc js)
      qed
    qed
  qed
qed

section \<open>The scan of one target\<close>

lemma vulnerable_with_severity [simp]: "vulnerable (with_severity okb f) = vulnerable f"
  by (simp add: with_severity_def)

lemma processed_vulnerable: "vulnerable f \<Longrightarrow> processed okb f = with_severity okb f"
  by (simp add: processed_def)

lemma collect_append:
  "collect okb tester (xs @ ys) s =
     (let (a, s1) = collect okb tester xs s; (b, s2) = collect okb tester ys s1 in (a @ b, s2))"
proof (induction xs arbitrary: s)
  case Nil
  then show ?case by (simp split: prod.splits)
next
  case (Cons x xs)
  obtain name pl where x: "x = (name, pl)" by (cases x) auto
  show ?case unfolding x by (simp add: Cons.IH Let_def split: prod.splits)
qed

lemma collect_appendI:
  "collect okb tester xs s = (a, s1) \<Longrightarrow> collect okb tester ys s1 = (b, s2)
   \<Longrightarrow> collect okb tester (xs @ ys) s = (a @ b, s2)"
  by (simp add: collect_append)

lemma collect_skip:
  "tester name pl s = (None, s1) \<Longrightarrow> collect okb tester xs s1 = (got, s2)
   \<Longrightarrow> collect okb tester ((name, pl) # xs) s = (got, s2)"
  by simp

lemma collect_keep:
  "tester name pl s = (Some f, s1) \<Longrightarrow> \<not> vulnerable f \<Longrightarrow> collect okb tester xs s1 = (got, s2)
   \<Longrightarrow> collect okb tester ((name, pl) # xs) s = (f # got, s2)"
  by simp

lemma payload_loop_Continue:
  "payload_loop cfg okb tester name pls acc flag s = (Continue rs fl, s') \<Longrightarrow> fast cfg \<Longrightarrow>
     \<exists>got. collect okb tester (map (Pair name) pls) s = (got, s') \<and> rs = acc @ got
           \<and> (\<forall>x\<in>set got. \<not> vulnerable x) \<and> fl = flag"
proof (induction pls arbitrary: acc s)
  case Nil
  then show ?case by simp
next
  case (Cons pl pls)
  obtain result s1 where t: "tester name pl s = (result, s1)" by (metis prod.exhaust)
  show ?case
  proof (cases result)
    case None
    with t Cons.prems(1)
    have "payload_loop cfg okb tester name pls acc flag s1 = (Continue rs fl, s')" by simp
    from Cons.IH[OF this Cons.prems(2)] obtain got where
      g: "collect okb tester (map (Pair name) pls) s1 = (got, s')" "rs = acc @ got"
         "\<forall>x\<in>set got. \<not> vulnerable x" "fl = flag" by blast
    from t None g(1) have "collect okb tester (map (Pair name) (pl # pls)) s = (got, s')" by simp
    with g(2,3,4) show ?thesis by blast
  next
    case (Some f)
    show ?thesis
    proof (cases "vulnerable f")
      case True
      with t Some Cons.prems show ?thesis by simp
    next
      case False
      with t Some Cons.prems(1)
      have "payload_loop cfg okb tester name pls (acc @ [f]) flag s1 = (Continue rs fl, s')" by simp
      from Cons.IH[OF this Cons.prems(2)] obtain got where
        g: "collect okb tester (map (Pair name) pls) s1 = (got, s')" "rs = (acc @ [f]) @ got"
           "\<forall>x\<in>set got. \<not> vulnerable x" "fl = flag" by blast
      from t Some False g(1)
      have c: "collect okb tester (map (Pair name) (pl # pls)) s = (f # got, s')" by simp
      have r: "rs = acc @ (f # got)" using g(2) by simp
      have n: "\<forall>x\<in>set (f # got). \<not> vulnerable x" using False g(3) by simp
      from c r n g(4) show ?thesis by blast
    qed
  qed
qed

lemma payload_loop_Return:
  "payload_loop cfg okb tester name pls acc flag s = (Return rs, s') \<Longrightarrow> fast cfg \<Longrightarrow>
     \<exists>dn pl rest got s0 f. pls = dn @ pl # rest
        \<and> collect okb tester (map (Pair name) dn) s = (got, s0)
        \<and> (\<forall>x\<in>set got. \<not> vulnerable x)
        \<and> tester name pl s0 = (Some f, s') \<and> vulnerable f
        \<and> rs = acc @ got @ [with_severity okb f]"
proof (induction pls arbitrary: acc s)
  case Nil
  then show ?case by simp
next
  case (Cons pl pls)
  obtain result s1 where t: "tester name pl s = (result, s1)" by (metis prod.exhaust)
  show ?case
  proof (cases result)
    case None
    with t Cons.prems(1)
    have "payload_loop cfg okb tester name pls acc flag s1 = (Return rs, s')" by simp
    from Cons.IH[OF this Cons.prems(2)] obtain dn p rest got s0 f where
      g: "pls = dn @ p # rest" "collect okb tester (map (Pair name) dn) s1 = (got, s0)"
         "\<forall>x\<in>set got. \<not> vulnerable x" "tester name p s0 = (Some f, s')" "vulnerable f"
         "rs = acc @ got @ [with_severity okb f]" by blast
    have d: "pl # pls = (pl # dn) @ p # rest" using g(1) by simp
    from t None g(2) have c: "collect okb tester (map (Pair name) (pl # dn)) s = (got, s0)" by simp
    show ?thesis
      by (intro exI conjI) (rule d, rule c, rule g(3), rule g(4), rule g(5), rule g(6))
  next
    case (Some f)
    show ?thesis
    proof (cases "vulnerable f")
      case True
      with t Some Cons.prems have r: "rs = acc @ [] @ [with_severity okb f]" and s: "s' = s1"
        by auto
      have d: "pl # pls = [] @ pl # pls" by simp
      have c: "collect okb tester (map (Pair name) []) s = ([], s)" by simp
      have n: "\<forall>x\<in>set []. \<not> vulnerable x" by simp
      from t Some s have t': "tester name pl s = (Some f, s')" by simp
      show ?thesis
        by (intro exI conjI) (rule d, rule c, rule n, rule t', rule True, rule r)
    next
      case False
      with t Some Cons.prems(1)
      have "payload_loop cfg okb tester name pls (acc @ [f]) flag s1 = (Return rs, s')" by simp
      from Cons.IH[OF this Cons.prems(2)] obtain dn p rest got s0 g where
        g: "pls = dn @ p # rest" "collect okb tester (map (Pair name) dn) s1 = (got, s0)"
           "\<forall>x\<in>set got. \<not> vulnerable x" "tester name p s0 = (Some g, s')" "vulnerable g"
           "rs = (acc @ [f]) @ got @ [with_severity okb g]" by blast
      have d: "pl # pls = (pl # dn) @ p # rest" using g(1) by simp
      from t Some False g(2)
      have c: "collect okb tester (map (Pair name) (pl # dn)) s = (f # got, s0)" by simp
      have n: "\<forall>x\<in>set (f # got). \<not> vulnerable x" using False g(3) by simp
      have r: "rs = acc @ (f # got) @ [with_severity okb g]" using g(6) by simp
      show ?thesis
        by (intro exI conjI) (rule d, rule c, rule n, rule g(4), rule g(5), rule r)
    qed
  qed
qed

lemma name_loop_Continue:
  "name_loop cfg okb tester names pls acc False s = (Continue rs fl, s') \<Longrightarrow> fast cfg \<Longrightarrow>
     \<exists>got. collect okb tester (List.product names pls) s = (got, s') \<and> rs = acc @ got
           \<and> (\<forall>x\<in>set got. \<not> vulnerable x) \<and> fl = False"
proof (induction names arbitrary: acc s)
  case Nil
  then show ?case by simp
next
  case (Cons name names)
  obtain ex1 s1 where pl: "payload_loop cfg okb tester name pls acc False s = (ex1, s1)"
    by (metis prod.exhaust)
  show ?case
  proof (cases ex1)
    case (Return rs1)
    with pl Cons.prems(1) show ?thesis by simp
  next
    case (Continue rs1 fl1)
    from payload_loop_Continue[OF pl[unfolded Continue] Cons.prems(2)] obtain got1 where
      g1: "collect okb tester (map (Pair name) pls) s = (got1, s1)" "rs1 = acc @ got1"
          "\<forall>x\<in>set got1. \<not> vulnerable x" "fl1 = False" by blast
    from pl Continue Cons.prems(1) g1(4)
    have "name_loop cfg okb tester names pls rs1 False s1 = (Continue rs fl, s')" by simp
    from Cons.IH[OF this Cons.prems(2)] obtain got2 where
      g2: "collect okb tester (List.product names pls) s1 = (got2, s')" "rs = rs1 @ got2"
          "\<forall>x\<in>set got2. \<not> vulnerable x" "fl = False" by blast
    from collect_appendI[OF g1(1) g2(1)]
    have c: "collect okb tester (List.product (name # names) pls) s = (got1 @ got2, s')" by simp
    have r: "rs = acc @ (got1 @ got2)" using g1(2) g2(2) by simp
    have n: "\<forall>x\<in>set (got1 @ got2). \<not> vulnerable x" using g1(3) g2(3) by auto
    from c r n g2(4) show ?thesis by blast
  qed
qed

lemma name_loop_Return:
  "name_loop cfg okb tester names pls acc False s = (Return rs, s') \<Longrightarrow> fast cfg \<Longrightarrow>
     \<exists>dn name pl rest got s0 f. List.product names pls = dn @ (name, pl) # rest
        \<and> collect okb tester dn s = (got, s0)
        \<and> (\<forall>x\<in>set got. \<not> vulnerable x)
        \<and> tester name pl s0 = (Some f, s') \<and> vulnerable f
        \<and> rs = acc @ got @ [with_severity okb f]"
proof (induction names arbitrary: acc s)
  case Nil
  then show ?case by simp
next
  case (Cons name names)
  obtain ex1 s1 where pl: "payload_loop cfg okb tester name pls acc False s = (ex1, s1)"
    by (metis prod.exhaust)
  show ?case
  proof (cases ex1)
    case (Return rs1)
    with pl Cons.prems(1) have e: "rs1 = rs" "s1 = s'" by auto
    from payload_loop_Return[OF pl[unfolded Return e] Cons.prems(2)] obtain dn p rest got s0 f where
      g: "pls = dn @ p # rest" "collect okb tester (map (Pair name) dn) s = (got, s0)"
         "\<forall>x\<in>set got. \<not> vulnerable x" "tester name p s0 = (Some f, s')" "vulnerable f"
         "rs = acc @ got @ [with_severity okb f]" by blast
    have d: "List.product (name # names) pls
             = map (Pair name) dn @ (name, p) # (map (Pair name) rest @ List.product names pls)"
      using g(1) by simp
    show ?thesis
      by (intro exI conjI) (rule d, rule g(2), rule g(3), rule g(4), rule g(5), rule g(6))
  next
    case (Continue rs1 fl1)
    from payload_loop_Continue[OF pl[unfolded Continue] Cons.prems(2)] obtain got1 where
      g1: "collect okb tester (map (Pair name) pls) s = (got1, s1)" "rs1 = acc @ got1"
          "\<forall>x\<in>set got1. \<not> vulnerable x" "fl1 = False" by blast
    from pl Continue Cons.prems(1) g1(4)
    have "name_loop cfg okb tester names pls rs1 False s1 = (Return rs, s')" by simp
    from Cons.IH[OF this Cons.prems(2)] obtain dn nm p rest got s0 f where
      g: "List.product names pls = dn @ (nm, p) # rest" "collect okb tester dn s1 = (got, s0)"
         "\<forall>x\<in>set got. \<not> vulnerable x" "tester nm p s0 = (Some f, s')" "vulnerable f"
         "rs = rs1 @ got @ [with_severity okb f]" by blast
    have d: "List.product (name # names) pls = (map (Pair name) pls @ dn) @ (nm, p) # rest"
      using g(1) by simp
    have c: "collect okb tester (map (Pair name) pls @ dn) s = (got1 @ got, s0)"
      by (rule collect_appendI[OF g1(1) g(2)])
    have n: "\<forall>x\<in>set (got1 @ got). \<not> vulnerable x" using g1(3) g(3) by auto
    have r: "rs = acc @ (got1 @ got) @ [with_severity okb f]" using g1(2) g(6) by simp
    show ?thesis
      by (intro exI conjI) (rule d, rule c, rule n, rule g(4), rule g(5), rule r)
  qed
qed

lemma cookie_loop_fast:
  assumes "fast cfg"
  shows "cookie_loop E cfg send u xs [] s = (rs, s') \<Longrightarrow>
     rs = [] \<or> (\<exists>dn x rest f s0. xs = dn @ x # rest
                  \<and> cookie_loop E cfg send u dn [] s = ([], s0)
                  \<and> cookie_loop E cfg send u [x] [] s0 = ([f], s') \<and> rs = [f] \<and> vulnerable f)"
proof (induction xs arbitrary: s)
  case Nil
  then show ?case by simp
next
  case (Cons x xs)
  obtain cn pl where x: "x = (cn, pl)" by (cases x) auto
  obtain response s1 where mr:
    "make_request send ((get_request u)\<lparr>rq_cookies := [(cn, pl)]\<rparr>) s = (response, s1)"
    by (metis prod.exhaust)
  have skip: ?case
    if step: "\<And>ys. cookie_loop E cfg send u (x # ys) [] s = cookie_loop E cfg send u ys [] sa" for sa
  proof -
    from Cons.prems step have "cookie_loop E cfg send u xs [] sa = (rs, s')" by simp
    from Cons.IH[OF this] show ?thesis
    proof
      assume "rs = []"
      then show ?thesis by simp
    next
      assume "\<exists>dn y rest f s0. xs = dn @ y # rest
                  \<and> cookie_loop E cfg send u dn [] sa = ([], s0)
                  \<and> cookie_loop E cfg send u [y] [] s0 = ([f], s') \<and> rs = [f] \<and> vulnerable f"
      then obtain dn y rest f s0 where g: "xs = dn @ y # rest"
        "cookie_loop E cfg send u dn [] sa = ([], s0)"
        "cookie_loop E cfg send u [y] [] s0 = ([f], s')" "rs = [f]" "vulnerable f" by blast
      have d: "x # xs = (x # dn) @ y # rest" using g(1) by simp
      have c: "cookie_loop E cfg send u (x # dn) [] s = ([], s0)" using step g(2) by simp
      have "\<exists>dn x' rest f s0. x # xs = dn @ x' # rest
                  \<and> cookie_loop E cfg send u dn [] s = ([], s0)
                  \<and> cookie_loop E cfg send u [x'] [] s0 = ([f], s') \<and> rs = [f] \<and> vulnerable f"
        by (intro exI conjI) (rule d, rule c, rule g(3), rule g(4), rule g(5))
      then show ?thesis by (rule disjI2)
    qed
  qed
  show ?case
  proof (cases "truthy response \<and> is_redirect_status (status_code (the response))
                \<and> location_or_empty (the response) \<noteq> []")
    case False
    with x mr have "\<And>ys. cookie_loop E cfg send u (x # ys) [] s = cookie_loop E cfg send u ys [] s1"
      by (auto split: if_splits)
    then show ?thesis by (rule skip)
  next
    case True
    obtain chain final s2 where fo:
      "follow_once E send u (location_or_empty (the response)) s1 = ((chain, final), s2)"
      by (metis prod.exhaust)
    show ?thesis
    proof (cases "validate_redirect (ok_bracketed E) u final (Some pl) (callback_url cfg)")
      case False
      with x mr True fo
      have "\<And>ys. cookie_loop E cfg send u (x # ys) [] s = cookie_loop E cfg send u ys [] s2"
        by auto
      then show ?thesis by (rule skip)
    next
      case v: True
      define f where "f = blank_finding\<lparr>vulnerable := True, original_url := u, url := u,
                           cookie_name := Some cn, payload := pl,
                           finding_method := Some ''Cookie Redirect'',
                           result_status_code := status_code (the response),
                           final_location := Some final, redirect_chain := Some chain,
                           response_headers := headers_or_none (headers (the response))\<rparr>"
      have vf: "vulnerable f" by (simp add: f_def)
      from Cons.prems x mr True fo v assms have r: "rs = [f]" and s': "s' = s2"
        by (auto simp: f_def)
      from mr True fo v assms x s' have one: "cookie_loop E cfg send u [x] [] s = ([f], s')"
        by (auto simp: f_def)
      have d: "x # xs = [] @ x # xs" by simp
      have c: "cookie_loop E cfg send u [] [] s = ([], s)" by simp
      have "\<exists>dn x' rest f s0. x # xs = dn @ x' # rest
                  \<and> cookie_loop E cfg send u dn [] s = ([], s0)
                  \<and> cookie_loop E cfg send u [x'] [] s0 = ([f], s') \<and> rs = [f] \<and> vulnerable f"
        by (intro exI conjI) (rule d, rule c, rule one, rule r, rule vf)
      then show ?thesis by (rule disjI2)
    qed
  qed
qed

lemma form_loop_fast:
  assumes "fast cfg"
  shows "form_loop E cfg send u xs [] s = (Inr rs, s') \<Longrightarrow>
     rs = [] \<or> (\<exists>dn x rest f s0. xs = dn @ x # rest
                  \<and> form_loop E cfg send u dn [] s = (Inr [], s0)
                  \<and> form_loop E cfg send u [x] [] s0 = (Inr [f], s') \<and> rs = [f] \<and> vulnerable f)"
proof (induction xs arbitrary: s)
  case Nil
  then show ?case by simp
next
  case (Cons x xs)
  obtain pa pl where x: "x = (pa, pl)" by (cases x) auto
  let ?s0 = "s\<lparr>total_requests := total_requests s + 1\<rparr>"
  have skip: ?case
    if step: "\<And>ys. form_loop E cfg send u (x # ys) [] s = form_loop E cfg send u ys [] sa" for sa
  proof -
    from Cons.prems step have "form_loop E cfg send u xs [] sa = (Inr rs, s')" by simp
    from Cons.IH[OF this] show ?thesis
    proof
      assume "rs = []"
      then show ?thesis by simp
    next
      assume "\<exists>dn y rest f s0. xs = dn @ y # rest
                  \<and> form_loop E cfg send u dn [] sa = (Inr [], s0)
                  \<and> form_loop E cfg send u [y] [] s0 = (Inr [f], s') \<and> rs = [f] \<and> vulnerable f"
      then obtain dn y rest f s0 where g: "xs = dn @ y # rest"
        "form_loop E cfg send u dn [] sa = (Inr [], s0)"
        "form_loop E cfg send u [y] [] s0 = (Inr [f], s')" "rs = [f]" "vulnerable f" by blast
      have d: "x # xs = (x # dn) @ y # rest" using g(1) by simp
      have c: "form_loop E cfg send u (x # dn) [] s = (Inr [], s0)" using step g(2) by simp
      have "\<exists>dn x' rest f s0. x # xs = dn @ x' # rest
                  \<and> form_loop E cfg send u dn [] s = (Inr [], s0)
                  \<and> form_loop E cfg send u [x'] [] s0 = (Inr [f], s') \<and> rs = [f] \<and> vulnerable f"
        by (intro exI conjI) (rule d, rule c, rule g(3), rule g(4), rule g(5))
      then show ?thesis by (rule disjI2)
    qed
  qed
  show ?case
  proof (cases self_headers)
    case (Inl e)
    from Cons.prems x show ?thesis by (simp add: Let_def Inl)
  next
    case (Inr hs)
    obtain post_response w where sp:
      "send \<lparr>rq_method = ''POST'', rq_url = u, rq_headers = hs, rq_cookies = [],
             rq_data = [(pa, pl)], rq_allow_redirects = False\<rparr> (world ?s0) = (post_response, w)"
      by (metis prod.exhaust)
    let ?s1 = "?s0\<lparr>world := w\<rparr>"
    show ?thesis
    proof (cases "truthy post_response \<and> is_redirect_status (status_code (the post_response))
                  \<and> location_or_empty (the post_response) \<noteq> []")
      case False
      with x sp have "\<And>ys. form_loop E cfg send u (x # ys) [] s = form_loop E cfg send u ys [] ?s1"
        by (auto simp: Let_def Inr split: if_splits)
      then show ?thesis by (rule skip)
    next
      case True
      obtain chain final s2 where fo:
        "follow_once E send u (location_or_empty (the post_response)) ?s1 = ((chain, final), s2)"
        by (metis prod.exhaust)
      show ?thesis
      proof (cases "validate_redirect (ok_bracketed E) u final (Some pl) (callback_url cfg)")
        case False
        with x sp True fo
        have "\<And>ys. form_loop E cfg send u (x # ys) [] s = form_loop E cfg send u ys [] s2"
          by (auto simp: Let_def Inr)
        then show ?thesis by (rule skip)
      next
        case v: True
        define f where "f = blank_finding\<lparr>vulnerable := True, original_url := u, url := u,
                                   parameter := Some pa, payload := pl,
                                   finding_method := Some ''Form POST Redirect'',
                                   result_status_code := status_code (the post_response),
                                   final_location := Some final, redirect_chain := Some chain,
                                   response_headers := headers_or_none (headers (the post_response))\<rparr>"
        have vf: "vulnerable f" by (simp add: f_def)
        from Cons.prems x sp True fo v assms have r: "rs = [f]" and s': "s' = s2"
          by (auto simp: f_def Let_def Inr)
        from sp True fo v assms x s'
        have one: "form_loop E cfg send u [x] [] s = (Inr [f], s')"
          by (auto simp: f_def Let_def Inr)
        have d: "x # xs = [] @ x # xs" by simp
        have c: "form_loop E cfg send u [] [] s = (Inr [], s)" by simp
        have "\<exists>dn x' rest f s0. x # xs = dn @ x' # rest
                  \<and> form_loop E cfg send u dn [] s = (Inr [], s0)
                  \<and> form_loop E cfg send u [x'] [] s0 = (Inr [f], s') \<and> rs = [f] \<and> vulnerable f"
          by (intro exI conjI) (rule d, rule c, rule one, rule r, rule vf)
        then show ?thesis by (rule disjI2)
      qed
    qed
  qed
qed

lemma last_vulnerable:
  assumes "r \<in> set (pre @ [g])" "vulnerable r" "\<forall>x\<in>set pre. \<not> vulnerable x"
  shows "r = g"
  using assms by auto

text \<open>
  C8. In fast mode, when \<open>scan_single_url\<close> returns a list that holds a vulnerable result,
  the list is the results collected so far followed by that result, and the scanner ends in
  the state in which the tester attempt that produced it ended: no tester, payload or
  parameter ran after it. The results collected so far are what the testers returned, none
  of them vulnerable, on the attempts that precede the finding in the fixed order:
  URL parameters, then headers when enabled, then the form tester, then the cookie tester
  (the last two return nothing before their finding). The finding is the result of one call
  of \<open>test_url_parameter\<close> or of \<open>test_header_injection\<close>, or of one round of the loop of the
  form tester or of the cookie tester, with its severity added.
\<close>

theorem fast_mode_stops_at_first_finding:
  assumes "fast cfg"
    and "scan_single_url E cfg send u s = (Inr results, s')"
    and "r \<in> set results" and "vulnerable r"
  shows "\<exists>pre f s0. results = pre @ [r] \<and> (\<forall>x\<in>set pre. \<not> vulnerable x)
      \<and> vulnerable f \<and> r = with_severity (ok_bracketed E) f
      \<and> ((\<exists>dn name pl rest. param_attempts E cfg u = dn @ (name, pl) # rest
             \<and> collect (ok_bracketed E) (test_url_parameter E cfg send u) dn s = (pre, s0)
             \<and> test_url_parameter E cfg send u name pl s0 = (Some f, s'))
         \<or> (\<exists>pre1 s1 pre2 dn name pl rest. headers_test cfg
             \<and> collect (ok_bracketed E) (test_url_parameter E cfg send u) (param_attempts E cfg u) s
                 = (pre1, s1)
             \<and> header_attempts E cfg = dn @ (name, pl) # rest
             \<and> collect (ok_bracketed E) (test_header_injection E cfg send u) dn s1 = (pre2, s0)
             \<and> pre = pre1 @ pre2
             \<and> test_header_injection E cfg send u name pl s0 = (Some f, s'))
         \<or> (\<exists>s2 resp s3 dn x rest. collect_phases E cfg send u s = (pre, s2)
             \<and> make_request send ((get_request u)\<lparr>rq_allow_redirects := True\<rparr>) s2 = (resp, s3)
             \<and> List.product form_params (test_payloads cfg) = dn @ x # rest
             \<and> form_loop E cfg send u dn [] s3 = (Inr [], s0)
             \<and> form_loop E cfg send u [x] [] s0 = (Inr [f], s'))
         \<or> (\<exists>s2 s3 dn x rest. collect_phases E cfg send u s = (pre, s2)
             \<and> test_form_redirects E cfg send u s2 = (Inr [], s3)
             \<and> List.product cookie_names (test_payloads cfg) = dn @ x # rest
             \<and> cookie_loop E cfg send u dn [] s3 = ([], s0)
             \<and> cookie_loop E cfg send u [x] [] s0 = ([f], s')))"
proof -
  let ?okb = "ok_bracketed E"
  let ?tup = "test_url_parameter E cfg send u"
  let ?thi = "test_header_injection E cfg send u"
  obtain ex1 s1 where p1:
    "name_loop cfg ?okb ?tup (redirect_params_of E u)
       (effective_payloads cfg (get_payloads E)) [] False s = (ex1, s1)"
    by (metis prod.exhaust)
  show ?thesis
  proof (cases ex1)
    case (Return rs)
    with assms(2) p1 have e: "results = rs" "s' = s1" by (auto simp: scan_single_url_def)
    from name_loop_Return[OF p1[unfolded Return] assms(1)] obtain dn name pl rest got s0 f where
      g: "List.product (redirect_params_of E u) (effective_payloads cfg (get_payloads E))
            = dn @ (name, pl) # rest"
         "collect ?okb ?tup dn s = (got, s0)" "\<forall>x\<in>set got. \<not> vulnerable x"
         "?tup name pl s0 = (Some f, s1)" "vulnerable f"
         "rs = [] @ got @ [with_severity ?okb f]" by blast
    from assms(3,4) e g(3,6) have rf: "r = with_severity ?okb f" using last_vulnerable by simp
    have res: "results = got @ [r]" using e g(6) rf by simp
    have d: "param_attempts E cfg u = dn @ (name, pl) # rest" using g(1) by (simp add: param_attempts_def)
    have t: "?tup name pl s0 = (Some f, s')" using g(4) e by simp
    have D: "(\<exists>dn name pl rest. param_attempts E cfg u = dn @ (name, pl) # rest
             \<and> collect ?okb ?tup dn s = (got, s0) \<and> ?tup name pl s0 = (Some f, s'))"
      by (intro exI conjI) (rule d, rule g(2), rule t)
    show ?thesis
      by (intro exI conjI) (rule res, rule g(3), rule g(5), rule rf, rule disjI1, rule D)
  next
    case c1: (Continue rs1 fl1)
    from name_loop_Continue[OF p1[unfolded c1] assms(1)] obtain got1 where
      g1: "collect ?okb ?tup
             (List.product (redirect_params_of E u) (effective_payloads cfg (get_payloads E))) s
           = (got1, s1)"
          "rs1 = [] @ got1" "\<forall>x\<in>set got1. \<not> vulnerable x" "fl1 = False" by blast
    have cp1: "collect ?okb ?tup (param_attempts E cfg u) s = (rs1, s1)"
      using g1(1,2) by (simp add: param_attempts_def)
    have n1: "\<forall>x\<in>set rs1. \<not> vulnerable x" using g1(2,3) by simp
    obtain ex2 s2 where p2: "header_phase E cfg send u rs1 False s1 = (ex2, s2)"
      by (metis prod.exhaust)
    from assms(2) p1 c1 g1(4) p2
    have scan2: "(case ex2 of
         Return rs \<Rightarrow> (Inr rs, s2)
       | Continue rs2 flag2 \<Rightarrow>
           (case test_form_redirects E cfg send u s2 of
              (Inl e, s3) \<Rightarrow> (Inl e, s3)
            | (Inr form_results_list, s3) \<Rightarrow>
                (let rs3 = rs2 @ map (processed ?okb) form_results_list
                 in if fast cfg \<and> list_ex vulnerable form_results_list then (Inr rs3, s3)
                    else
                      (let (cookie_results_list, s4) = test_cookie_redirects E cfg send u s3
                       in (Inr (rs3 @ map (processed ?okb) cookie_results_list), s4)))))
       = (Inr results, s')"
      by (simp add: scan_single_url_def)
    show ?thesis
    proof (cases ex2)
      case (Return rs)
      with scan2 have e: "results = rs" "s' = s2" by auto
      from p2 Return have ht: "headers_test cfg" by (auto simp: header_phase_def split: if_splits)
      with p2 Return have "name_loop cfg ?okb ?thi header_names
             (effective_payloads cfg (get_header_payloads E)) rs1 False s1 = (Return rs, s2)"
        by (simp add: header_phase_def)
      from name_loop_Return[OF this assms(1)] obtain dn name pl rest got s0 f where
        g: "List.product header_names (effective_payloads cfg (get_header_payloads E))
              = dn @ (name, pl) # rest"
           "collect ?okb ?thi dn s1 = (got, s0)" "\<forall>x\<in>set got. \<not> vulnerable x"
           "?thi name pl s0 = (Some f, s2)" "vulnerable f"
           "rs = rs1 @ got @ [with_severity ?okb f]" by blast
      have n: "\<forall>x\<in>set (rs1 @ got). \<not> vulnerable x" using n1 g(3) by auto
      from assms(3,4) e g(6) n have rf: "r = with_severity ?okb f"
        using last_vulnerable[of r "rs1 @ got"] by simp
      have res: "results = (rs1 @ got) @ [r]" using e g(6) rf by simp
      have d: "header_attempts E cfg = dn @ (name, pl) # rest"
        using g(1) by (simp add: header_attempts_def)
      have t: "?thi name pl s0 = (Some f, s')" using g(4) e by simp
      have D: "(\<exists>pre1 s1 pre2 dn name pl rest. headers_test cfg
             \<and> collect ?okb ?tup (param_attempts E cfg u) s = (pre1, s1)
             \<and> header_attempts E cfg = dn @ (name, pl) # rest
             \<and> collect ?okb ?thi dn s1 = (pre2, s0)
             \<and> rs1 @ got = pre1 @ pre2
             \<and> ?thi name pl s0 = (Some f, s'))"
        by (intro exI conjI) (rule ht, rule cp1, rule d, rule g(2), rule refl, rule t)
      show ?thesis
        by (intro exI conjI)
           (rule res, rule n, rule g(5), rule rf, rule disjI2, rule disjI1, rule D)
    next
      case c2: (Continue rs2 fl2)
      have cp: "collect_phases E cfg send u s = (rs2, s2)"
      proof (cases "headers_test cfg")
        case True
        with p2 c2 have "name_loop cfg ?okb ?thi header_names
             (effective_payloads cfg (get_header_payloads E)) rs1 False s1 = (Continue rs2 fl2, s2)"
          by (simp add: header_phase_def)
        from name_loop_Continue[OF this assms(1)] obtain got2 where
          "collect ?okb ?thi
             (List.product header_names (effective_payloads cfg (get_header_payloads E))) s1
           = (got2, s2)" "rs2 = rs1 @ got2" by blast
        with cp1 True show ?thesis by (simp add: collect_phases_def header_attempts_def)
      next
        case False
        with p2 c2 have "rs2 = rs1" "s2 = s1" by (auto simp: header_phase_def)
        with cp1 False show ?thesis by (simp add: collect_phases_def)
      qed
      have n2: "\<forall>x\<in>set rs2. \<not> vulnerable x"
      proof (cases "headers_test cfg")
        case True
        with p2 c2 have "name_loop cfg ?okb ?thi header_names
             (effective_payloads cfg (get_header_payloads E)) rs1 False s1 = (Continue rs2 fl2, s2)"
          by (simp add: header_phase_def)
        from name_loop_Continue[OF this assms(1)] n1 show ?thesis by auto
      next
        case False
        with p2 c2 n1 show ?thesis by (auto simp: header_phase_def)
      qed
      obtain fr s3 where p3: "test_form_redirects E cfg send u s2 = (fr, s3)"
        by (metis prod.exhaust)
      show ?thesis
      proof (cases fr)
        case (Inl e)
        with scan2 c2 p3 show ?thesis by simp
      next
        case (Inr frs)
        obtain resp sf where mrf:
          "make_request send ((get_request u)\<lparr>rq_allow_redirects := True\<rparr>) s2 = (resp, sf)"
          by (metis prod.exhaust)
        show ?thesis
        proof (cases "frs = []")
          case False
          with p3 Inr mrf
          have fl: "form_loop E cfg send u (List.product form_params (test_payloads cfg)) [] sf
                    = (Inr frs, s3)"
            by (auto simp: test_form_redirects_def split: if_splits)
          from form_loop_fast[OF assms(1) fl] False obtain dn x rest f s0 where
            g: "List.product form_params (test_payloads cfg) = dn @ x # rest"
               "form_loop E cfg send u dn [] sf = (Inr [], s0)"
               "form_loop E cfg send u [x] [] s0 = (Inr [f], s3)" "frs = [f]" "vulnerable f"
            by blast
          from scan2 c2 p3 Inr g(4,5) assms(1)
          have e: "results = rs2 @ [with_severity ?okb f]" "s' = s3"
            by (auto simp: Let_def processed_vulnerable)
          from assms(3,4) e n2 have rf: "r = with_severity ?okb f" using last_vulnerable by blast
          have res: "results = rs2 @ [r]" using e rf by simp
          have t: "form_loop E cfg send u [x] [] s0 = (Inr [f], s')" using g(3) e by simp
          have D: "(\<exists>s2 resp s3 dn x rest. collect_phases E cfg send u s = (rs2, s2)
             \<and> make_request send ((get_request u)\<lparr>rq_allow_redirects := True\<rparr>) s2 = (resp, s3)
             \<and> List.product form_params (test_payloads cfg) = dn @ x # rest
             \<and> form_loop E cfg send u dn [] s3 = (Inr [], s0)
             \<and> form_loop E cfg send u [x] [] s0 = (Inr [f], s'))"
            by (intro exI conjI) (rule cp, rule mrf, rule g(1), rule g(2), rule t)
          show ?thesis
            by (intro exI conjI)
               (rule res, rule n2, rule g(5), rule rf, rule disjI2, rule disjI2, rule disjI1, rule D)
        next
          case True
          obtain crs s4 where p4: "test_cookie_redirects E cfg send u s3 = (crs, s4)"
            by (metis prod.exhaust)
          from scan2 c2 p3 Inr True p4
          have e: "results = rs2 @ map (processed ?okb) crs" "s' = s4"
            by (auto simp: Let_def)
          from p4 have "cookie_loop E cfg send u (List.product cookie_names (test_payloads cfg)) [] s3
              = (crs, s4)" by (simp add: test_cookie_redirects_def)
          from cookie_loop_fast[OF assms(1) this]
          have cf: "crs = [] \<or> (\<exists>dn x rest f s0.
                      List.product cookie_names (test_payloads cfg) = dn @ x # rest
                      \<and> cookie_loop E cfg send u dn [] s3 = ([], s0)
                      \<and> cookie_loop E cfg send u [x] [] s0 = ([f], s4)
                      \<and> crs = [f] \<and> vulnerable f)" .
          show ?thesis
          proof (cases "crs = []")
            case True
            with e assms(3,4) n2 show ?thesis by auto
          next
            case False
            with cf obtain dn x rest f s0 where
              g: "List.product cookie_names (test_payloads cfg) = dn @ x # rest"
                 "cookie_loop E cfg send u dn [] s3 = ([], s0)"
                 "cookie_loop E cfg send u [x] [] s0 = ([f], s4)" "crs = [f]" "vulnerable f"
              by blast
            from e g(4,5) have e': "results = rs2 @ [with_severity ?okb f]"
              by (simp add: processed_vulnerable)
            from assms(3,4) e' n2 have rf: "r = with_severity ?okb f" using last_vulnerable by blast
            have res: "results = rs2 @ [r]" using e' rf by simp
            have t: "cookie_loop E cfg send u [x] [] s0 = ([f], s')" using g(3) e(2) by simp
            have p3': "test_form_redirects E cfg send u s2 = (Inr [], s3)"
              using p3 Inr True by simp
            have D: "(\<exists>s2 s3 dn x rest. collect_phases E cfg send u s = (rs2, s2)
               \<and> test_form_redirects E cfg send u s2 = (Inr [], s3)
               \<and> List.product cookie_names (test_payloads cfg) = dn @ x # rest
               \<and> cookie_loop E cfg send u dn [] s3 = ([], s0)
               \<and> cookie_loop E cfg send u [x] [] s0 = ([f], s'))"
              by (intro exI conjI) (rule cp, rule p3', rule g(1), rule g(2), rule t)
            show ?thesis
              by (intro exI conjI)
                 (rule res, rule n2, rule g(5), rule rf, rule disjI2, rule disjI2, rule disjI2, rule D)
          qed
        qed
      qed
    qed
  qed
qed

theorem fast_mode_stops_at_first_finding_witness:
  "fast fast_header_config
   \<and> (case fst (scan_single_url demo_env fast_header_config header_server target start) of
        Inl e \<Rightarrow> False
      | Inr rs \<Rightarrow> length rs = 2 \<and> \<not> vulnerable (hd rs) \<and> parameter (hd rs) = Some ''next''
                 \<and> vulnerable (last rs) \<and> header_name (last rs) = Some ''Host''
                 \<and> severity (last rs) = Some ''High'')
   \<and> total_requests (snd (scan_single_url demo_env fast_header_config header_server target start)) = 2
   \<and> (\<exists>rs r pre f. scan_single_url demo_env fast_header_config header_server target start
          = (Inr rs, snd (scan_single_url demo_env fast_header_config header_server target start))
        \<and> r \<in> set rs \<and> vulnerable r \<and> rs = pre @ [r] \<and> (\<forall>x\<in>set pre. \<not> vulnerable x)
        \<and> vulnerable f \<and> r = with_severity (ok_bracketed demo_env) f)"
proof -
  let ?X = "scan_single_url demo_env fast_header_config header_server target start"
  have h1: "fast fast_header_config" by code_simp
  have c: "case fst ?X of Inl e \<Rightarrow> False
      | Inr rs \<Rightarrow> length rs = 2 \<and> \<not> vulnerable (hd rs) \<and> parameter (hd rs) = Some ''next''
                 \<and> vulnerable (last rs) \<and> header_name (last rs) = Some ''Host''
                 \<and> severity (last rs) = Some ''High''"
    by code_simp
  have n: "total_requests (snd ?X) = 2" by code_simp
  from c obtain rs where rs: "fst ?X = Inr rs" and l: "length rs = 2" and v: "vulnerable (last rs)"
    by (cases "fst ?X") auto
  have h2: "?X = (Inr rs, snd ?X)" using rs by (metis prod.collapse)
  from l have h3: "last rs \<in> set rs" by (cases rs) auto
  from fast_mode_stops_at_first_finding[OF h1 h2 h3 v] obtain pre f where
    a: "rs = pre @ [last rs]" "\<forall>x\<in>set pre. \<not> vulnerable x" "vulnerable f"
       "last rs = with_severity (ok_bracketed demo_env) f"
    by (elim exE conjE)
  have "\<exists>rs r pre f. ?X = (Inr rs, snd ?X)
        \<and> r \<in> set rs \<and> vulnerable r \<and> rs = pre @ [r] \<and> (\<forall>x\<in>set pre. \<not> vulnerable x)
        \<and> vulnerable f \<and> r = with_severity (ok_bracketed demo_env) f"
    by (intro exI conjI) (rule h2, rule h3, rule v, rule a(1), rule a(2), rule a(3), rule a(4))
  with h1 c n show ?thesis by (intro conjI)
qed

text \<open>
  The form tester reads \<open>self.headers\<close> before its first POST: whenever the page holds a form,
  \<open>test_form_redirects\<close> raises \<open>AttributeError\<close>, which it does not catch.
\<close>

lemma form_loop_raises:
  "form_loop E cfg send u (x # xs) rs s = (Inl AttributeError, s\<lparr>total_requests := total_requests s + 1\<rparr>)"
  by (cases x) (simp add: self_headers_def Let_def)

lemma test_form_redirects_raises:
  assumes "make_request send ((get_request u)\<lparr>rq_allow_redirects := True\<rparr>) s = (Some r, s1)"
    and "ok r" and "status_code r = 200" and "contains (lower (resp_text r)) ''<form''"
  shows "fst (test_form_redirects E cfg send u s) = Inl AttributeError"
proof -
  obtain x xs where p: "List.product form_params (test_payloads cfg) = x # xs"
    by (cases "List.product form_params (test_payloads cfg)")
       (auto simp: form_params_def test_payloads_def split: if_splits)
  from assms show ?thesis
    by (simp add: test_form_redirects_def truthy_def p form_loop_raises)
qed

text \<open>
  C9 (the code at the failing input). In non-fast mode, on a target whose page holds a form,
  the URL-parameter tester completes and its result is accumulated; the error of the form
  tester then leaves \<open>scan_single_url\<close>, which returns no list at all.
\<close>

theorem form_tester_error_discards_results:
  "(case fst (name_loop demo_config (ok_bracketed demo_env)
                (test_url_parameter demo_env demo_config form_server target)
                (redirect_params_of demo_env target)
                (effective_payloads demo_config (get_payloads demo_env)) [] False start) of
      Return rs \<Rightarrow> False
    | Continue rs fl \<Rightarrow> length rs = 1 \<and> \<not> vulnerable (hd rs))
   \<and> \<not> fast demo_config
   \<and> (case fst (scan_single_url demo_env demo_config form_server target start) of
        Inl e \<Rightarrow> e = AttributeError
      | Inr rs \<Rightarrow> False)"
  by code_simp

end
